theory Spec2Isabelle
  imports Complex_Main "HOL-Library.AList"
begin

section \<open>Data model\<close>

text \<open>
  A JavaScript object used as a dictionary is an association list with distinct keys, in
  insertion order: \<open>Object.entries\<close> is the list itself, \<open>o[k]\<close> is \<open>map_of o k\<close>
  (\<open>None\<close> for \<open>undefined\<close>) and \<open>o[k] = v\<close> is \<open>AList.update k v o\<close>, which
  overwrites an existing key in place and appends a new one. The keys here are CAIP
  identifiers, never integer-like strings, so insertion order is enumeration order.
\<close>

type_synonym 'v obj = "(string \<times> 'v) list"

type_synonym CAIP2 = string
type_synonym CAIP10 = string
type_synonym CAIP19 = string
type_synonym NetworkTypes = string
type_synonym ContractTypes = string

text \<open>
  \<open>ChainTypes\<close> is a string enum of the types package; the source names its members
  \<open>Ethereum\<close> and \<open>Bitcoin\<close>. Any other runtime value is \<open>OtherChain\<close>.
\<close>

datatype ChainTypes = Ethereum | Bitcoin | OtherChain string

fun ChainTypes_value :: "ChainTypes \<Rightarrow> string" where
  "ChainTypes_value Ethereum = ''ethereum''"
| "ChainTypes_value Bitcoin = ''bitcoin''"
| "ChainTypes_value (OtherChain s) = s"

text \<open>
  The raw account record of the chain adapters, with the fields the source reads. A record
  has the shape its type declares, so \<open>chainSpecific\<close> is always there.
  \<open>chainSpecific.tokens\<close> and \<open>chainSpecific.addresses\<close> are optional: reading a
  field the object does not have gives \<open>undefined\<close>, here \<open>None\<close>. The balance of
  an address is optional for the same reason.
\<close>

record Token =
  contractType :: ContractTypes
  contract :: string
  token_balance :: string

record Address =
  address_balance :: "string option"

record ChainSpecific =
  tokens :: "Token list option"
  addresses :: "Address list option"

record Account =
  chain :: ChainTypes
  network :: NetworkTypes
  balance :: string
  pubkey :: string
  chainSpecific :: ChainSpecific

text \<open>
  \<open>PortfolioAccounts\<close> and \<open>PortfolioBalances\<close> have the same shape, an object
  \<open>byId\<close> and an array \<open>ids\<close>; they differ in what \<open>byId\<close> holds.
\<close>

record 'v Index =
  byId :: "'v obj"
  ids :: "string list"

type_synonym PortfolioAccounts = "CAIP19 list Index"
type_synonym PortfolioBalances = "string Index"

record Portfolio =
  accounts :: PortfolioAccounts
  balances :: PortfolioBalances

definition initialState :: Portfolio where
  "initialState = \<lparr>accounts = \<lparr>byId = [], ids = []\<rparr>, balances = \<lparr>byId = [], ids = []\<rparr>\<rparr>"

section \<open>The normalizer \<open>accountsToPortfolio\<close>\<close>

text \<open>
  \<open>String.prototype.toLowerCase\<close> on the ASCII range, where CAIP identifiers live.
\<close>

definition lower_char :: "char \<Rightarrow> char" where
  "lower_char c =
     (let n = (of_char c :: nat) in if 65 \<le> n \<and> n \<le> 90 then char_of (n + 32) else c)"

definition toLowerCase :: "string \<Rightarrow> string" where
  "toLowerCase s = map lower_char s"

text \<open>
  The statements of the loop body, one definition each. A thrown \<open>TypeError\<close> is
  \<open>None\<close>: \<open>portfolio.accounts.byId[CAIP10].push(x)\<close> throws when the key is absent.
\<close>

definition accounts_byId_set :: "CAIP10 \<Rightarrow> CAIP19 list \<Rightarrow> Portfolio \<Rightarrow> Portfolio" where
  "accounts_byId_set k v p =
     p\<lparr>accounts := (accounts p)\<lparr>byId := AList.update k v (byId (accounts p))\<rparr>\<rparr>"

definition accounts_ids_push :: "CAIP10 \<Rightarrow> Portfolio \<Rightarrow> Portfolio" where
  "accounts_ids_push k p = p\<lparr>accounts := (accounts p)\<lparr>ids := ids (accounts p) @ [k]\<rparr>\<rparr>"

definition accounts_byId_push :: "CAIP10 \<Rightarrow> CAIP19 \<Rightarrow> Portfolio \<Rightarrow> Portfolio option" where
  "accounts_byId_push k x p =
     (case map_of (byId (accounts p)) k of
        None \<Rightarrow> None
      | Some xs \<Rightarrow> Some (accounts_byId_set k (xs @ [x]) p))"

definition balances_ids_push :: "CAIP19 \<Rightarrow> Portfolio \<Rightarrow> Portfolio" where
  "balances_ids_push x p = p\<lparr>balances := (balances p)\<lparr>ids := ids (balances p) @ [x]\<rparr>\<rparr>"

definition balances_byId_set :: "CAIP19 \<Rightarrow> string \<Rightarrow> Portfolio \<Rightarrow> Portfolio" where
  "balances_byId_set x b p =
     p\<lparr>balances := (balances p)\<lparr>byId := AList.update x b (byId (balances p))\<rparr>\<rparr>"

text \<open>\<open>Array.prototype.forEach\<close> with a body that updates the state and may throw.\<close>

fun forEach :: "('a \<Rightarrow> 's \<Rightarrow> 's option) \<Rightarrow> 'a list \<Rightarrow> 's \<Rightarrow> 's option" where
  "forEach f [] s = Some s"
| "forEach f (x # xs) s = (case f x s of None \<Rightarrow> None | Some s' \<Rightarrow> forEach f xs s')"

text \<open>
  \<open>caip19.toCAIP19\<close> belongs to an external package and is a parameter of the model:
  \<open>toCAIP19 chain network contractType tokenId\<close>, the last two \<open>None\<close> when the
  call does not pass them. It is a function that returns an identifier on every call, as
  its type says.
\<close>

type_synonym ToCAIP19 =
  "ChainTypes \<Rightarrow> NetworkTypes \<Rightarrow> ContractTypes option \<Rightarrow> string option \<Rightarrow> CAIP19"

definition tokenCAIP19 :: "ToCAIP19 \<Rightarrow> ChainTypes \<Rightarrow> NetworkTypes \<Rightarrow> Token \<Rightarrow> CAIP19" where
  "tokenCAIP19 toCAIP19 c n token =
     toLowerCase (toCAIP19 c n (Some (contractType token)) (Some (contract token)))"

definition token_body ::
  "ToCAIP19 \<Rightarrow> ChainTypes \<Rightarrow> NetworkTypes \<Rightarrow> CAIP10 \<Rightarrow> Token \<Rightarrow> Portfolio \<Rightarrow> Portfolio option" where
  "token_body toCAIP19 c n k token p =
     (let tokenId = tokenCAIP19 toCAIP19 c n token in
      case accounts_byId_push k tokenId p of
        None \<Rightarrow> None
      | Some p1 \<Rightarrow>
          Some (balances_byId_set tokenId (token_balance token) (balances_ids_push tokenId p1)))"

subsection \<open>Decimal arithmetic helper\<close>

text \<open>
  Modelled from the spec: the helper module \<open>lib/bignumber/bignumber\<close> (\<open>bn\<close>,
  \<open>bnOrZero\<close>) and the decimal type it wraps are not among the sources. The spec calls
  it an arbitrary-precision decimal type whose operations are exact, and says that an
  absent or invalid value is coerced to zero. A decimal is a rational number here and
  \<open>None\<close> is the value that is not a number. \<open>bn\<close> reads plain decimal notation: an
  optional minus sign, digits, and at most one decimal point.
\<close>

type_synonym BigNumber = "rat option"

definition digit_of :: "char \<Rightarrow> int option" where
  "digit_of c =
     (let n = (of_char c :: int) in if 48 \<le> n \<and> n \<le> 57 then Some (n - 48) else None)"

fun digits_value :: "int \<Rightarrow> string \<Rightarrow> int option" where
  "digits_value acc [] = Some acc"
| "digits_value acc (c # cs) =
     (case digit_of c of None \<Rightarrow> None | Some d \<Rightarrow> digits_value (10 * acc + d) cs)"

definition unsigned_decimal :: "string \<Rightarrow> BigNumber" where
  "unsigned_decimal s =
     (let ip = takeWhile (\<lambda>c. c \<noteq> CHR ''.'') s;
          fp = drop (length ip + 1) s
      in if ip = [] \<and> fp = [] then None
         else case (digits_value 0 ip, digits_value 0 fp) of
                (Some i, Some f) \<Rightarrow> Some (of_int i + of_int f / 10 ^ length fp)
              | _ \<Rightarrow> None)"

definition bn :: "string \<Rightarrow> BigNumber" where
  "bn s = (case s of
             c # r \<Rightarrow> if c = CHR ''-'' then map_option uminus (unsigned_decimal r)
                      else unsigned_decimal s
           | [] \<Rightarrow> None)"

text \<open>
  Modelled from the spec: \<open>bnOrZero\<close>, "coerced to zero if absent/invalid". The argument
  is \<open>None\<close> when the value is \<open>undefined\<close>.
\<close>

definition bnOrZero :: "string option \<Rightarrow> BigNumber" where
  "bnOrZero v =
     (case v of
        None \<Rightarrow> Some 0
      | Some s \<Rightarrow> (case bn s of None \<Rightarrow> Some 0 | Some r \<Rightarrow> Some r))"

definition plus_bn :: "BigNumber \<Rightarrow> BigNumber \<Rightarrow> BigNumber" where
  "plus_bn x y = (case (x, y) of (Some a, Some b) \<Rightarrow> Some (a + b) | _ \<Rightarrow> None)"

definition times_bn :: "BigNumber \<Rightarrow> BigNumber \<Rightarrow> BigNumber" where
  "times_bn x y = (case (x, y) of (Some a, Some b) \<Rightarrow> Some (a * b) | _ \<Rightarrow> None)"

text \<open>
  Modelled from the spec: "rounded to 2 decimal places". The spec names no rounding mode;
  a half is rounded away from zero.
\<close>

definition round_half_up :: "rat \<Rightarrow> int" where
  "round_half_up r = (if r < 0 then - \<lfloor>- r + 1 / 2\<rfloor> else \<lfloor>r + 1 / 2\<rfloor>)"

definition decimalPlaces :: "nat \<Rightarrow> BigNumber \<Rightarrow> BigNumber" where
  "decimalPlaces dp x = map_option (\<lambda>r. of_int (round_half_up (r * 10 ^ dp)) / 10 ^ dp) x"

fun digits :: "nat \<Rightarrow> string" where
  "digits n = (if n < 10 then [char_of (48 + n)]
               else digits (n div 10) @ [char_of (48 + n mod 10)])"

declare digits.simps [simp del]

definition pad_left :: "nat \<Rightarrow> string \<Rightarrow> string" where
  "pad_left n s = replicate (n - length s) CHR ''0'' @ s"

text \<open>
  Printing, in plain decimal digits. \<open>toFixed dp\<close> rounds to \<open>dp\<close> places and prints
  exactly \<open>dp\<close> fraction digits; \<open>toString_integer\<close> is \<open>toString\<close> on a value without
  fraction digits, which is what \<open>decimalPlaces(0)\<close> returns.
\<close>

definition toFixed :: "nat \<Rightarrow> BigNumber \<Rightarrow> string" where
  "toFixed dp x =
     (case x of
        None \<Rightarrow> ''NaN''
      | Some r \<Rightarrow>
          (let m = round_half_up (r * 10 ^ dp);
               a = nat \<bar>m\<bar>;
               sign = (if m < 0 then ''-'' else []);
               ip = digits (a div 10 ^ dp);
               fp = pad_left dp (digits (a mod 10 ^ dp))
           in if dp = 0 then sign @ ip else sign @ ip @ ''.'' @ fp))"

definition toString_integer :: "BigNumber \<Rightarrow> string" where
  "toString_integer x = toFixed 0 x"

subsection \<open>The loop body and the function\<close>

definition totalSats :: "Address list \<Rightarrow> BigNumber" where
  "totalSats addrs = foldl (\<lambda>acc cur. plus_bn acc (bnOrZero (address_balance cur))) (Some 0) addrs"

definition account_body :: "ToCAIP19 \<Rightarrow> CAIP10 \<times> Account \<Rightarrow> Portfolio \<Rightarrow> Portfolio option" where
  "account_body toCAIP19 entry p =
     (let k = fst entry; account = snd entry;
          c = chain account; n = network account;
          p1 = accounts_ids_push k (accounts_byId_set k [] p)
      in case c of
           Ethereum \<Rightarrow>
             (let ethCAIP19 = toCAIP19 c n None None in
              case accounts_byId_push k ethCAIP19 p1 of
                None \<Rightarrow> None
              | Some p2 \<Rightarrow>
                  (let p3 = balances_byId_set ethCAIP19 (balance account)
                              (balances_ids_push ethCAIP19 p2)
                   in case tokens (chainSpecific account) of
                        None \<Rightarrow> Some p3
                      | Some ts \<Rightarrow> forEach (token_body toCAIP19 c n k) ts p3))
         | Bitcoin \<Rightarrow>
             (let btcCAIP19 = toCAIP19 c n None None;
                  addrs = (case addresses (chainSpecific account) of None \<Rightarrow> [] | Some a \<Rightarrow> a);
                  bal = toString_integer (decimalPlaces 0 (totalSats addrs))
              in case accounts_byId_push k btcCAIP19 p1 of
                   None \<Rightarrow> None
                 | Some p2 \<Rightarrow>
                     Some (balances_ids_push btcCAIP19 (balances_byId_set btcCAIP19 bal p2)))
         | OtherChain _ \<Rightarrow> Some p1)"

text \<open>
  On values \<open>cloneDeep\<close> is the identity: a value shares nothing. What the copy is
  for shows on the heap, further down.
\<close>

definition cloneDeep :: "Portfolio \<Rightarrow> Portfolio" where
  "cloneDeep p = p"

text \<open>The argument is \<open>Object.entries(args)\<close>, the entries of the input mapping.\<close>

definition accountsToPortfolio :: "ToCAIP19 \<Rightarrow> Account obj \<Rightarrow> Portfolio option" where
  "accountsToPortfolio toCAIP19 args =
     forEach (account_body toCAIP19) args (cloneDeep initialState)"

text \<open>
  A stand-in for the external \<open>toCAIP19\<close> in the CAIP-19 layout
  \<open>namespace:reference/assetNamespace:assetReference\<close>, used at concrete inputs only.
\<close>

definition sample_toCAIP19 :: ToCAIP19 where
  "sample_toCAIP19 c n ct tid =
     (case c of Ethereum \<Rightarrow> ''eip155'' | Bitcoin \<Rightarrow> ''bip122'' | OtherChain s \<Rightarrow> s)
     @ '':'' @ n @ ''/'' @
     (case (ct, tid) of
        (Some t, Some i) \<Rightarrow> t @ '':'' @ i
      | _ \<Rightarrow> (case c of Ethereum \<Rightarrow> ''slip44:60'' | _ \<Rightarrow> ''slip44:0''))"

subsection \<open>What one account record contributes, in the words of the spec\<close>

text \<open>
  The spec describes the normalizer per record: the pairs of asset identifier and balance
  that the record contributes, in order. An account-based record contributes the native
  asset with the account balance and then one pair per token; a UTXO record contributes
  one pair with the summed address balances; any other record contributes nothing.
\<close>

definition sats_of :: "string option \<Rightarrow> rat" where
  "sats_of v = (case v of None \<Rightarrow> 0 | Some s \<Rightarrow> (case bn s of None \<Rightarrow> 0 | Some r \<Rightarrow> r))"

definition address_sats :: "Address \<Rightarrow> rat" where
  "address_sats ad = sats_of (address_balance ad)"

definition int_string :: "int \<Rightarrow> string" where
  "int_string z = (if z < 0 then ''-'' else []) @ digits (nat \<bar>z\<bar>)"

definition account_addresses :: "Account \<Rightarrow> Address list" where
  "account_addresses account =
     (case addresses (chainSpecific account) of None \<Rightarrow> [] | Some a \<Rightarrow> a)"

definition account_tokens :: "Account \<Rightarrow> Token list" where
  "account_tokens account =
     (case tokens (chainSpecific account) of None \<Rightarrow> [] | Some ts \<Rightarrow> ts)"

definition recorded :: "ToCAIP19 \<Rightarrow> Account \<Rightarrow> (CAIP19 \<times> string) list" where
  "recorded toCAIP19 account =
     (case chain account of
        Ethereum \<Rightarrow>
          (toCAIP19 Ethereum (network account) None None, balance account) #
          map (\<lambda>t. (tokenCAIP19 toCAIP19 Ethereum (network account) t, token_balance t))
            (account_tokens account)
      | Bitcoin \<Rightarrow>
          [(toCAIP19 Bitcoin (network account) None None,
            int_string (round_half_up (sum_list (map address_sats (account_addresses account)))))]
      | OtherChain _ \<Rightarrow> [])"

definition set_all :: "(string \<times> 'v) list \<Rightarrow> 'v obj \<Rightarrow> 'v obj" where
  "set_all kvs ob = fold (\<lambda>kv. AList.update (fst kv) (snd kv)) kvs ob"

definition record_account :: "CAIP10 \<Rightarrow> (CAIP19 \<times> string) list \<Rightarrow> Portfolio \<Rightarrow> Portfolio" where
  "record_account k kvs p =
     \<lparr>accounts = \<lparr>byId = AList.update k (map fst kvs) (byId (accounts p)),
                  ids = ids (accounts p) @ [k]\<rparr>,
      balances = \<lparr>byId = set_all kvs (byId (balances p)),
                  ids = ids (balances p) @ map fst kvs\<rparr>\<rparr>"

definition record_all :: "ToCAIP19 \<Rightarrow> Account obj \<Rightarrow> Portfolio \<Rightarrow> Portfolio" where
  "record_all toCAIP19 args p =
     fold (\<lambda>e. record_account (fst e) (recorded toCAIP19 (snd e))) args p"

section \<open>Selectors\<close>

text \<open>
  The stored state the selectors read. \<open>selectAssetsById\<close> and \<open>selectMarketData\<close>
  belong to sibling slices; they return the asset metadata and the market data by asset
  identifier. Memoization does not change what a selector returns and is left out.
\<close>

record Asset =
  caip19 :: CAIP19
  precision :: nat

record MarketData =
  price :: string

record ReduxState =
  assets :: "Asset obj"
  marketData :: "MarketData obj"
  portfolio :: Portfolio

definition selectAssetsById :: "ReduxState \<Rightarrow> Asset obj" where
  "selectAssetsById state = assets state"

definition selectMarketData :: "ReduxState \<Rightarrow> MarketData obj" where
  "selectMarketData state = marketData state"

definition selectPortfolioCryptoBalances :: "ReduxState \<Rightarrow> string obj" where
  "selectPortfolioCryptoBalances state = byId (balances (portfolio state))"

definition selectPortfolioAssetIds :: "ReduxState \<Rightarrow> CAIP19 list" where
  "selectPortfolioAssetIds state = ids (balances (portfolio state))"

text \<open>
  JavaScript truthiness of the two guarded values: \<open>!price\<close> holds for \<open>undefined\<close> and
  for the empty string, \<open>!precision\<close> for \<open>undefined\<close> and for the number \<open>0\<close>.
\<close>

definition not_string :: "string option \<Rightarrow> bool" where
  "not_string v = (case v of None \<Rightarrow> True | Some s \<Rightarrow> s = [])"

definition not_number :: "nat option \<Rightarrow> bool" where
  "not_number v = (case v of None \<Rightarrow> True | Some n \<Rightarrow> n = 0)"

text \<open>
  Modelled from the spec: \<open>fromBaseUnit\<close> of \<open>lib/math\<close> is not among the sources. The
  spec says "balance converted from base units using the asset's precision": the value,
  zero when absent or invalid, divided by ten to the precision. \<open>bnOrZero_bn\<close> is
  \<open>bnOrZero\<close> on an argument that is a decimal already.
\<close>

definition fromBaseUnit :: "string option \<Rightarrow> nat \<Rightarrow> BigNumber" where
  "fromBaseUnit v decimals = map_option (\<lambda>r. r / 10 ^ decimals) (bnOrZero v)"

definition bnOrZero_bn :: "BigNumber \<Rightarrow> BigNumber" where
  "bnOrZero_bn x = (case x of None \<Rightarrow> Some 0 | Some r \<Rightarrow> Some r)"

definition totalFiat_step ::
  "Asset obj \<Rightarrow> MarketData obj \<Rightarrow> BigNumber \<Rightarrow> CAIP19 \<times> string \<Rightarrow> BigNumber" where
  "totalFiat_step as md acc entry =
     (let CAIP19 = fst entry; balanceString = snd entry;
          precision = map_option precision (map_of as CAIP19);
          price = map_option price (map_of md CAIP19)
      in if not_string price \<or> not_number precision then acc
         else (let cryptoValue = fromBaseUnit (Some balanceString) (the precision);
                   assetFiatBalance = times_bn (bnOrZero_bn cryptoValue) (bn (the price))
               in plus_bn acc assetFiatBalance))"

text \<open>
  The result is the decimal that \<open>decimalPlaces(2)\<close> returns; the final \<open>toNumber()\<close>
  converts it to the nearest double, which is outside the model.
\<close>

definition selectTotalFiatBalance :: "ReduxState \<Rightarrow> BigNumber" where
  "selectTotalFiatBalance state =
     decimalPlaces 2
       (foldl (totalFiat_step (selectAssetsById state) (selectMarketData state)) (Some 0)
          (selectPortfolioCryptoBalances state))"

definition selectAssetFiatBalance :: "ReduxState \<Rightarrow> CAIP19 \<Rightarrow> string" where
  "selectAssetFiatBalance state CAIP19 =
     (let balance = map_of (selectPortfolioCryptoBalances state) CAIP19;
          precision = map_option precision (map_of (selectAssetsById state) CAIP19);
          price = map_option price (map_of (selectMarketData state) CAIP19)
      in if not_string price \<or> not_number precision then ''0''
         else toFixed 2 (times_bn (bnOrZero_bn (fromBaseUnit balance (the precision)))
                           (bn (the price))))"

text \<open>
  The per-asset fiat value in the words of the spec, before any rounding: the balance
  converted from base units times the price, zero when the price or the precision is
  unknown. \<open>guard_exact\<close> says that the guard of the source takes an identifier for
  unknown only when it is: a known precision is not zero and a known price is not empty.
\<close>

definition fiat_value :: "Asset obj \<Rightarrow> MarketData obj \<Rightarrow> CAIP19 \<times> string \<Rightarrow> BigNumber" where
  "fiat_value as md entry =
     (case (map_of as (fst entry), map_of md (fst entry)) of
        (Some a, Some m) \<Rightarrow> times_bn (fromBaseUnit (Some (snd entry)) (precision a)) (bn (price m))
      | _ \<Rightarrow> Some 0)"

definition guard_exact :: "Asset obj \<Rightarrow> MarketData obj \<Rightarrow> CAIP19 \<Rightarrow> bool" where
  "guard_exact as md x =
     ((case map_of as x of None \<Rightarrow> True | Some a \<Rightarrow> precision a \<noteq> 0) \<and>
      (case map_of md x of None \<Rightarrow> True | Some m \<Rightarrow> price m \<noteq> []))"

section \<open>The hook \<open>useFetchAsset\<close>\<close>

text \<open>
  The effect body. \<open>asset\<close> is \<open>state.assets[tokenId ?? chain]\<close>, \<open>None\<close> when the store
  has no such entry. The effect either returns without dispatching, dispatches an action,
  or throws a \<open>TypeError\<close> when it reads a property of \<open>undefined\<close>.
\<close>

datatype EffectOutcome = Returned | Dispatched string | TypeError

definition selected_asset :: "Asset obj \<Rightarrow> ChainTypes \<Rightarrow> string option \<Rightarrow> Asset option" where
  "selected_asset as c tokenId =
     map_of as (case tokenId of None \<Rightarrow> ChainTypes_value c | Some t \<Rightarrow> t)"

definition useFetchAsset_effect :: "Asset option \<Rightarrow> EffectOutcome" where
  "useFetchAsset_effect asset =
     (if asset \<noteq> None then Returned
      else (case asset of
              None \<Rightarrow> TypeError
            | Some a \<Rightarrow> Dispatched (caip19 a)))"

section \<open>The orchestrator's query function\<close>

text \<open>
  The collaborators are parameters; \<open>toCAIP2\<close> and \<open>toCAIP10\<close> return an
  identifier on every call. \<open>fromCAIP2\<close> and the account fetch run inside the
  asynchronous callback of one request, so a failure of either is the rejection of that
  request (\<open>Inl\<close> with the reason). \<open>Promise.allSettled\<close> yields one settled result per
  promise, in order. The console is a list of lines.
\<close>

datatype 'a PromiseSettledResult = Rejected string | Fulfilled 'a

datatype QueryReturnValue = Data "Account obj" | Error string

record Collaborators =
  fromCAIP2 :: "CAIP2 \<Rightarrow> string + ChainTypes"
  getAccount :: "ChainTypes \<Rightarrow> string \<Rightarrow> string + Account"
  toCAIP2 :: "ChainTypes \<Rightarrow> NetworkTypes \<Rightarrow> CAIP2"
  toCAIP10 :: "CAIP2 \<Rightarrow> string \<Rightarrow> CAIP10"

definition request :: "Collaborators \<Rightarrow> CAIP2 \<times> string \<Rightarrow> Account PromiseSettledResult" where
  "request co entry =
     (case fromCAIP2 co (fst entry) of
        Inl reason \<Rightarrow> Rejected reason
      | Inr c \<Rightarrow> (case getAccount co c (snd entry) of
                    Inl reason \<Rightarrow> Rejected reason
                  | Inr account \<Rightarrow> Fulfilled account))"

definition account_CAIP10 :: "Collaborators \<Rightarrow> Account \<Rightarrow> CAIP10" where
  "account_CAIP10 co v = toCAIP10 co (toCAIP2 co (chain v) (network v)) (pubkey v)"

definition log_line :: "string \<Rightarrow> string" where
  "log_line reason = ''portfolioApi: '' @ reason"

definition settle ::
  "Collaborators \<Rightarrow> string list \<times> Account obj \<Rightarrow> Account PromiseSettledResult
     \<Rightarrow> string list \<times> Account obj" where
  "settle co st cur =
     (case cur of
        Rejected reason \<Rightarrow> (fst st @ [log_line reason], snd st)
      | Fulfilled v \<Rightarrow> (fst st, AList.update (account_CAIP10 co v) v (snd st)))"

definition promises :: "Collaborators \<Rightarrow> string obj \<Rightarrow> Account PromiseSettledResult list" where
  "promises co pubkeys = map (request co) pubkeys"

definition queryFn :: "Collaborators \<Rightarrow> string obj \<Rightarrow> string list \<times> QueryReturnValue" where
  "queryFn co pubkeys =
     (if pubkeys = [] then ([], Data [])
      else (let maybeAccounts = promises co pubkeys;
                st = foldl (settle co) ([], []) maybeAccounts
            in (fst st, Data (snd st))))"

text \<open>The values of the fulfilled results and the reasons of the rejected ones, in order.\<close>

fun fulfilled :: "'a PromiseSettledResult list \<Rightarrow> 'a list" where
  "fulfilled [] = []"
| "fulfilled (Fulfilled v # rs) = v # fulfilled rs"
| "fulfilled (Rejected reason # rs) = fulfilled rs"

fun rejected :: "'a PromiseSettledResult list \<Rightarrow> string list" where
  "rejected [] = []"
| "rejected (Fulfilled v # rs) = rejected rs"
| "rejected (Rejected reason # rs) = reason # rejected rs"

section \<open>The normalizer on a heap\<close>

text \<open>
  Whether the normalizer has side effects depends on what it shares with the rest of the
  program: the module-level \<open>initialState\<close> is an object, and the function mutates the
  object it works on. Here objects are cells of a heap and values are references. An array
  of strings, an object with string values and an object whose values are references are
  the three kinds of cell a Portfolio is made of. Allocation takes the next free address.
  The input mapping is only read by the source and stays a value.
\<close>

type_synonym addr = nat

datatype cell = Arr "string list" | StrObj "string obj" | RefObj "addr obj"

record heap =
  cells :: "addr \<Rightarrow> cell option"
  next_free :: addr

definition h_alloc :: "cell \<Rightarrow> heap \<Rightarrow> heap \<times> addr" where
  "h_alloc c h = (\<lparr>cells = (cells h)(next_free h \<mapsto> c), next_free = Suc (next_free h)\<rparr>, next_free h)"

definition h_write :: "addr \<Rightarrow> cell \<Rightarrow> heap \<Rightarrow> heap" where
  "h_write a c h = h\<lparr>cells := (cells h)(a \<mapsto> c)\<rparr>"

text \<open>
  Property reads. \<open>get_path h r f1 f2\<close> is \<open>r.f1.f2\<close>; a read through a value that
  is not an object of the expected kind gives \<open>None\<close>.
\<close>

definition get_field :: "heap \<Rightarrow> addr \<Rightarrow> string \<Rightarrow> addr option" where
  "get_field h a name = (case cells h a of Some (RefObj fs) \<Rightarrow> map_of fs name | _ \<Rightarrow> None)"

definition get_path :: "heap \<Rightarrow> addr \<Rightarrow> string \<Rightarrow> string \<Rightarrow> addr option" where
  "get_path h r f1 f2 = (case get_field h r f1 of None \<Rightarrow> None | Some a \<Rightarrow> get_field h a f2)"

definition read_Arr :: "heap \<Rightarrow> addr \<Rightarrow> string list option" where
  "read_Arr h a = (case cells h a of Some (Arr xs) \<Rightarrow> Some xs | _ \<Rightarrow> None)"

definition read_StrObj :: "heap \<Rightarrow> addr \<Rightarrow> string obj option" where
  "read_StrObj h a = (case cells h a of Some (StrObj kvs) \<Rightarrow> Some kvs | _ \<Rightarrow> None)"

definition read_RefObj :: "heap \<Rightarrow> addr \<Rightarrow> addr obj option" where
  "read_RefObj h a = (case cells h a of Some (RefObj es) \<Rightarrow> Some es | _ \<Rightarrow> None)"

fun read_entries :: "heap \<Rightarrow> addr obj \<Rightarrow> (string list) obj option" where
  "read_entries h [] = Some []"
| "read_entries h (e # es) =
     (case read_Arr h (snd e) of
        None \<Rightarrow> None
      | Some xs \<Rightarrow> (case read_entries h es of None \<Rightarrow> None | Some r \<Rightarrow> Some ((fst e, xs) # r)))"

text \<open>The Portfolio value that the object graph under a reference holds.\<close>

definition read_portfolio :: "heap \<Rightarrow> addr \<Rightarrow> Portfolio option" where
  "read_portfolio h r =
     (case (get_path h r ''accounts'' ''byId'', get_path h r ''accounts'' ''ids'',
            get_path h r ''balances'' ''byId'', get_path h r ''balances'' ''ids'') of
        (Some abi, Some aid, Some bbi, Some bid) \<Rightarrow>
          (case (read_RefObj h abi, read_Arr h aid, read_StrObj h bbi, read_Arr h bid) of
             (Some es, Some aids, Some bs, Some bids) \<Rightarrow>
               (case read_entries h es of
                  None \<Rightarrow> None
                | Some entries \<Rightarrow>
                    Some \<lparr>accounts = \<lparr>byId = entries, ids = aids\<rparr>,
                          balances = \<lparr>byId = bs, ids = bids\<rparr>\<rparr>)
           | _ \<Rightarrow> None)
      | _ \<Rightarrow> None)"

text \<open>
  \<open>cloneDeep\<close> reads the graph under its argument and builds a copy from fresh cells
  only: one array per account entry and the seven cells of the Portfolio structure.
\<close>

definition alloc_entry :: "heap \<times> addr obj \<Rightarrow> string \<times> string list \<Rightarrow> heap \<times> addr obj" where
  "alloc_entry st e =
     (let ha = h_alloc (Arr (snd e)) (fst st) in (fst ha, snd st @ [(fst e, snd ha)]))"

definition alloc_portfolio :: "Portfolio \<Rightarrow> heap \<Rightarrow> heap \<times> addr" where
  "alloc_portfolio P h =
     (let n = next_free h;
          st = foldl alloc_entry (h\<lparr>next_free := n + 7\<rparr>, []) (byId (accounts P));
          h1 = h_write n (RefObj (snd st)) (fst st);
          h2 = h_write (Suc n) (Arr (ids (accounts P))) h1;
          h3 = h_write (n + 2) (RefObj [(''byId'', n), (''ids'', Suc n)]) h2;
          h4 = h_write (n + 3) (StrObj (byId (balances P))) h3;
          h5 = h_write (n + 4) (Arr (ids (balances P))) h4;
          h6 = h_write (n + 5) (RefObj [(''byId'', n + 3), (''ids'', n + 4)]) h5;
          h7 = h_write (n + 6) (RefObj [(''accounts'', n + 2), (''balances'', n + 5)]) h6
      in (h7, n + 6))"

definition h_cloneDeep :: "addr \<Rightarrow> heap \<Rightarrow> (heap \<times> addr) option" where
  "h_cloneDeep src h =
     (case read_portfolio h src of None \<Rightarrow> None | Some P \<Rightarrow> Some (alloc_portfolio P h))"

text \<open>
  The statements of the loop body on the heap; \<open>r\<close> is the reference held by the
  local \<open>portfolio\<close>. \<open>portfolio.accounts.byId[CAIP10] = []\<close> allocates the empty
  array; the pushes and the assignment to \<open>balances.byId\<close> overwrite the cell they reach.
\<close>

definition h_accounts_byId_set_empty :: "CAIP10 \<Rightarrow> addr \<Rightarrow> heap \<Rightarrow> heap option" where
  "h_accounts_byId_set_empty k r h =
     (case get_path h r ''accounts'' ''byId'' of
        None \<Rightarrow> None
      | Some abi \<Rightarrow>
          (case read_RefObj h abi of
             None \<Rightarrow> None
           | Some es \<Rightarrow>
               (let ha = h_alloc (Arr []) h
                in Some (h_write abi (RefObj (AList.update k (snd ha) es)) (fst ha)))))"

definition h_accounts_ids_push :: "CAIP10 \<Rightarrow> addr \<Rightarrow> heap \<Rightarrow> heap option" where
  "h_accounts_ids_push k r h =
     (case get_path h r ''accounts'' ''ids'' of
        None \<Rightarrow> None
      | Some aid \<Rightarrow>
          (case read_Arr h aid of
             None \<Rightarrow> None
           | Some xs \<Rightarrow> Some (h_write aid (Arr (xs @ [k])) h)))"

definition h_accounts_byId_push :: "CAIP10 \<Rightarrow> CAIP19 \<Rightarrow> addr \<Rightarrow> heap \<Rightarrow> heap option" where
  "h_accounts_byId_push k x r h =
     (case get_path h r ''accounts'' ''byId'' of
        None \<Rightarrow> None
      | Some abi \<Rightarrow>
          (case read_RefObj h abi of
             None \<Rightarrow> None
           | Some es \<Rightarrow>
               (case map_of es k of
                  None \<Rightarrow> None
                | Some a \<Rightarrow>
                    (case read_Arr h a of
                       None \<Rightarrow> None
                     | Some xs \<Rightarrow> Some (h_write a (Arr (xs @ [x])) h)))))"

definition h_balances_ids_push :: "CAIP19 \<Rightarrow> addr \<Rightarrow> heap \<Rightarrow> heap option" where
  "h_balances_ids_push x r h =
     (case get_path h r ''balances'' ''ids'' of
        None \<Rightarrow> None
      | Some bid \<Rightarrow>
          (case read_Arr h bid of
             None \<Rightarrow> None
           | Some xs \<Rightarrow> Some (h_write bid (Arr (xs @ [x])) h)))"

definition h_balances_byId_set :: "CAIP19 \<Rightarrow> string \<Rightarrow> addr \<Rightarrow> heap \<Rightarrow> heap option" where
  "h_balances_byId_set x b r h =
     (case get_path h r ''balances'' ''byId'' of
        None \<Rightarrow> None
      | Some bbi \<Rightarrow>
          (case read_StrObj h bbi of
             None \<Rightarrow> None
           | Some kvs \<Rightarrow> Some (h_write bbi (StrObj (AList.update x b kvs)) h)))"

definition then_do :: "'s option \<Rightarrow> ('s \<Rightarrow> 's option) \<Rightarrow> 's option" where
  "then_do m f = (case m of None \<Rightarrow> None | Some s \<Rightarrow> f s)"

definition h_token_body ::
  "ToCAIP19 \<Rightarrow> ChainTypes \<Rightarrow> NetworkTypes \<Rightarrow> CAIP10 \<Rightarrow> addr \<Rightarrow> Token \<Rightarrow> heap \<Rightarrow> heap option" where
  "h_token_body toCAIP19 c n k r token h =
     (let tokenId = tokenCAIP19 toCAIP19 c n token in
      then_do (then_do (h_accounts_byId_push k tokenId r h)
                 (h_balances_ids_push tokenId r))
        (h_balances_byId_set tokenId (token_balance token) r))"

definition h_account_body :: "ToCAIP19 \<Rightarrow> addr \<Rightarrow> CAIP10 \<times> Account \<Rightarrow> heap \<Rightarrow> heap option" where
  "h_account_body toCAIP19 r entry h =
     (let k = fst entry; account = snd entry;
          c = chain account; n = network account;
          h1 = then_do (h_accounts_byId_set_empty k r h) (h_accounts_ids_push k r)
      in case c of
           Ethereum \<Rightarrow>
             (let ethCAIP19 = toCAIP19 c n None None;
                  h3 = then_do (then_do (then_do h1 (h_accounts_byId_push k ethCAIP19 r))
                                  (h_balances_ids_push ethCAIP19 r))
                         (h_balances_byId_set ethCAIP19 (balance account) r)
              in case tokens (chainSpecific account) of
                   None \<Rightarrow> h3
                 | Some ts \<Rightarrow> then_do h3 (forEach (h_token_body toCAIP19 c n k r) ts))
         | Bitcoin \<Rightarrow>
             (let btcCAIP19 = toCAIP19 c n None None;
                  addrs = (case addresses (chainSpecific account) of None \<Rightarrow> [] | Some a \<Rightarrow> a);
                  bal = toString_integer (decimalPlaces 0 (totalSats addrs))
              in then_do (then_do (then_do h1 (h_accounts_byId_push k btcCAIP19 r))
                            (h_balances_byId_set btcCAIP19 bal r))
                   (h_balances_ids_push btcCAIP19 r))
         | OtherChain _ \<Rightarrow> h1)"

definition h_accountsToPortfolio ::
  "ToCAIP19 \<Rightarrow> Account obj \<Rightarrow> addr \<Rightarrow> heap \<Rightarrow> (heap \<times> addr) option" where
  "h_accountsToPortfolio toCAIP19 args init h =
     (case h_cloneDeep init h of
        None \<Rightarrow> None
      | Some hr \<Rightarrow>
          (case forEach (h_account_body toCAIP19 (snd hr)) args (fst hr) of
             None \<Rightarrow> None
           | Some h' \<Rightarrow> Some (h', snd hr)))"

text \<open>The heap after the module is loaded: \<open>initialState\<close> and nothing else.\<close>

definition empty_heap :: heap where
  "empty_heap = \<lparr>cells = (\<lambda>a. None), next_free = 0\<rparr>"

definition module_heap :: "heap \<times> addr" where
  "module_heap = alloc_portfolio initialState empty_heap"

text \<open>
  The invariant of the loop. The copy made at address \<open>n\<close> keeps its seven structure
  cells at \<open>n\<close> to \<open>n + 6\<close> (the root is \<open>n + 6\<close>), its arrays of asset identifiers
  live above them in cells of their own, and the cells hold the Portfolio \<open>P\<close>.
  \<open>frame n h h'\<close> says that \<open>h'\<close> agrees with \<open>h\<close> on every address below \<open>n\<close>.
\<close>

definition heap_closed :: "heap \<Rightarrow> bool" where
  "heap_closed h = (\<forall>a. cells h a \<noteq> None \<longrightarrow> a < next_free h)"

definition frame :: "addr \<Rightarrow> heap \<Rightarrow> heap \<Rightarrow> bool" where
  "frame n h h' = ((\<forall>a < n. cells h' a = cells h a) \<and> next_free h \<le> next_free h')"

definition layout :: "addr \<Rightarrow> heap \<Rightarrow> bool" where
  "layout n h =
     (cells h (n + 6) = Some (RefObj [(''accounts'', n + 2), (''balances'', n + 5)]) \<and>
      cells h (n + 2) = Some (RefObj [(''byId'', n), (''ids'', Suc n)]) \<and>
      cells h (n + 5) = Some (RefObj [(''byId'', n + 3), (''ids'', n + 4)]) \<and>
      n + 7 \<le> next_free h)"

definition holds :: "heap \<Rightarrow> string \<times> addr \<Rightarrow> string \<times> string list \<Rightarrow> bool" where
  "holds h e p = (fst e = fst p \<and> cells h (snd e) = Some (Arr (snd p)))"

definition entry_cells :: "addr \<Rightarrow> heap \<Rightarrow> addr obj \<Rightarrow> (string list) obj \<Rightarrow> bool" where
  "entry_cells n h es ps =
     (list_all2 (holds h) es ps \<and>
      (\<forall>e \<in> set es. n + 7 \<le> snd e \<and> snd e < next_free h) \<and>
      distinct (map snd es))"

definition Inv :: "addr \<Rightarrow> heap \<Rightarrow> Portfolio \<Rightarrow> addr obj \<Rightarrow> bool" where
  "Inv n h P es =
     (layout n h \<and> heap_closed h \<and>
      cells h n = Some (RefObj es) \<and>
      entry_cells n h es (byId (accounts P)) \<and>
      cells h (Suc n) = Some (Arr (ids (accounts P))) \<and>
      cells h (n + 3) = Some (StrObj (byId (balances P))) \<and>
      cells h (n + 4) = Some (Arr (ids (balances P))))"

definition Sim :: "addr \<Rightarrow> heap \<Rightarrow> heap \<Rightarrow> Portfolio \<Rightarrow> bool" where
  "Sim n h0 h P = ((\<exists>es. Inv n h P es) \<and> frame n h0 h)"

section \<open>Sample inputs\<close>

text \<open>Concrete records and states at which the results below are evaluated.\<close>

definition ex_token1 :: Token where
  "ex_token1 = \<lparr>contractType = ''erc20'', contract = ''0xAA'', token_balance = ''5''\<rparr>"

definition ex_token2 :: Token where
  "ex_token2 = \<lparr>contractType = ''erc20'', contract = ''0xBb'', token_balance = ''6''\<rparr>"

definition ex_eth :: Account where
  "ex_eth = \<lparr>chain = Ethereum, network = ''1'', balance = ''27'', pubkey = ''0xab'',
             chainSpecific = \<lparr>tokens = Some [ex_token1, ex_token2], addresses = None\<rparr>\<rparr>"

definition ex_eth_plain :: Account where
  "ex_eth_plain = \<lparr>chain = Ethereum, network = ''1'', balance = ''27'', pubkey = ''0xcd'',
                   chainSpecific = \<lparr>tokens = None, addresses = None\<rparr>\<rparr>"

definition ex_btc :: Account where
  "ex_btc = \<lparr>chain = Bitcoin, network = ''0'', balance = ''350'', pubkey = ''xpub1'',
             chainSpecific = \<lparr>tokens = None,
               addresses = Some [\<lparr>address_balance = Some ''100''\<rparr>,
                                 \<lparr>address_balance = Some ''250''\<rparr>,
                                 \<lparr>address_balance = Some ''0''\<rparr>]\<rparr>\<rparr>"

definition ex_btc_empty :: Account where
  "ex_btc_empty = \<lparr>chain = Bitcoin, network = ''0'', balance = ''0'', pubkey = ''xpub2'',
                   chainSpecific = \<lparr>tokens = None, addresses = None\<rparr>\<rparr>"

definition ex_other :: Account where
  "ex_other = \<lparr>chain = OtherChain ''cosmos'', network = ''4'', balance = ''9'', pubkey = ''c1'',
               chainSpecific = \<lparr>tokens = None, addresses = None\<rparr>\<rparr>"

definition ex_eth_second :: Account where
  "ex_eth_second = \<lparr>chain = Ethereum, network = ''1'', balance = ''3'', pubkey = ''0xef'',
                    chainSpecific = \<lparr>tokens = None, addresses = None\<rparr>\<rparr>"

definition ex_key_eth :: CAIP10 where "ex_key_eth = ''eip155:1:0xcd''"

definition ex_key_other :: CAIP10 where "ex_key_other = ''cosmos:4:c1''"

definition ex_key_btc :: CAIP10 where "ex_key_btc = ''bip122:0:xpub1''"

definition ex_key_ab :: CAIP10 where "ex_key_ab = ''eip155:1:0xab''"

definition ex_state_zero_precision :: ReduxState where
  "ex_state_zero_precision =
     \<lparr>assets = [(''eip155:1/erc20:0xaa'', \<lparr>caip19 = ''eip155:1/erc20:0xaa'', precision = 0\<rparr>)],
      marketData = [(''eip155:1/erc20:0xaa'', \<lparr>price = ''2.00''\<rparr>)],
      portfolio = \<lparr>accounts = \<lparr>byId = [(''eip155:1:0xab'', [''eip155:1/erc20:0xaa''])],
                                    ids = [''eip155:1:0xab'']\<rparr>,
                    balances = \<lparr>byId = [(''eip155:1/erc20:0xaa'', ''5'')],
                                    ids = [''eip155:1/erc20:0xaa'']\<rparr>\<rparr>\<rparr>"

definition ex_state_btc :: ReduxState where
  "ex_state_btc =
     \<lparr>assets = [(''bip122:0/slip44:0'', \<lparr>caip19 = ''bip122:0/slip44:0'', precision = 8\<rparr>)],
      marketData = [(''bip122:0/slip44:0'', \<lparr>price = ''2.00''\<rparr>)],
      portfolio = \<lparr>accounts = \<lparr>byId = [(''bip122:0:xpub1'', [''bip122:0/slip44:0''])],
                                    ids = [''bip122:0:xpub1'']\<rparr>,
                    balances = \<lparr>byId = [(''bip122:0/slip44:0'', ''150000000'')],
                                    ids = [''bip122:0/slip44:0'']\<rparr>\<rparr>\<rparr>"

definition ex_state_dust :: ReduxState where
  "ex_state_dust =
     \<lparr>assets = [(''bip122:0/slip44:0'', \<lparr>caip19 = ''bip122:0/slip44:0'', precision = 8\<rparr>)],
      marketData = [(''bip122:0/slip44:0'', \<lparr>price = ''2.00''\<rparr>)],
      portfolio = \<lparr>accounts = \<lparr>byId = [(''bip122:0:xpub1'', [''bip122:0/slip44:0''])],
                                    ids = [''bip122:0:xpub1'']\<rparr>,
                    balances = \<lparr>byId = [(''bip122:0/slip44:0'', ''1'')],
                                    ids = [''bip122:0/slip44:0'']\<rparr>\<rparr>\<rparr>"

definition ex_btc_id :: CAIP19 where "ex_btc_id = ''bip122:0/slip44:0''"

definition ex_collaborators :: Collaborators where
  "ex_collaborators =
     \<lparr>fromCAIP2 = (\<lambda>c. if c = ''eip155:1'' then Inr Ethereum
                         else if c = ''bip122:0'' then Inr Bitcoin
                         else Inl ''unsupported''),
      getAccount = (\<lambda>c pk. case c of
                              Ethereum \<Rightarrow> Inr ex_eth
                            | Bitcoin \<Rightarrow> Inl ''timeout''
                            | OtherChain s \<Rightarrow> Inl ''no adapter''),
      toCAIP2 = (\<lambda>c n. (case c of Ethereum \<Rightarrow> ''eip155'' | Bitcoin \<Rightarrow> ''bip122''
                                    | OtherChain s \<Rightarrow> s) @ '':'' @ n),
      toCAIP10 = (\<lambda>c2 pk. c2 @ '':'' @ pk)\<rparr>"

definition ex_pubkeys :: "string obj" where
  "ex_pubkeys = [(''eip155:1'', ''0xab''), (''bip122:0'', ''xpub1'')]"

definition ex_args :: "Account obj" where
  "ex_args = [(ex_key_ab, ex_eth), (ex_key_btc, ex_btc)]"

section \<open>The normalizer in closed form\<close>

text \<open>
  The invariant of the spec's data model: every asset identifier in an account's list is
  a key of the balances index.
\<close>

definition assets_have_balances :: "Portfolio \<Rightarrow> bool" where
  "assets_have_balances p =
     (\<forall>(k, xs) \<in> set (byId (accounts p)). set xs \<subseteq> fst ` set (byId (balances p)))"

lemma forEach_token_body:
  "map_of (byId (accounts p)) k = Some xs \<Longrightarrow>
   forEach (token_body f c n k) ts p =
     Some \<lparr>accounts = \<lparr>byId = AList.update k (xs @ map (tokenCAIP19 f c n) ts) (byId (accounts p)),
                       ids = ids (accounts p)\<rparr>,
           balances = \<lparr>byId = set_all (map (\<lambda>t. (tokenCAIP19 f c n t, token_balance t)) ts)
                                 (byId (balances p)),
                       ids = ids (balances p) @ map (tokenCAIP19 f c n) ts\<rparr>\<rparr>"
proof (induction ts arbitrary: p xs)
  case Nil
  then show ?case by (simp add: set_all_def AList.update_triv)
next
  case (Cons t ts)
  let ?x = "tokenCAIP19 f c n t"
  let ?p' = "balances_byId_set ?x (token_balance t)
               (balances_ids_push ?x (accounts_byId_set k (xs @ [?x]) p))"
  have step: "token_body f c n k t p = Some ?p'"
    using Cons.prems by (simp add: token_body_def accounts_byId_push_def Let_def)
  have look: "map_of (byId (accounts ?p')) k = Some (xs @ [?x])"
    by (simp add: balances_byId_set_def balances_ids_push_def accounts_byId_set_def
        AList.update_conv')
  show ?case
    using Cons.IH [OF look] step
    by (simp add: set_all_def balances_byId_set_def balances_ids_push_def accounts_byId_set_def)
qed

lemma plus_Some: "plus_bn (Some a) (Some b) = Some (a + b)"
  by (simp add: plus_bn_def)

lemma bnOrZero_address: "bnOrZero (address_balance ad) = Some (address_sats ad)"
  by (simp add: bnOrZero_def address_sats_def sats_of_def split: option.splits)

lemma foldl_totalSats:
  "foldl (\<lambda>acc cur. plus_bn acc (bnOrZero (address_balance cur))) (Some r) addrs =
     Some (r + sum_list (map address_sats addrs))"
  by (induction addrs arbitrary: r) (simp_all add: plus_Some bnOrZero_address add.assoc)

lemma totalSats_eq: "totalSats addrs = Some (sum_list (map address_sats addrs))"
  using foldl_totalSats [of 0 addrs] by (simp add: totalSats_def)

lemma round_half_up_of_int: "round_half_up (of_int z) = z"
proof (cases "z < 0")
  case True
  have "\<lfloor>(of_int (- z) :: rat) + 1 / 2\<rfloor> = - z" by linarith
  with True show ?thesis by (simp add: round_half_up_def)
next
  case False
  have "\<lfloor>(of_int z :: rat) + 1 / 2\<rfloor> = z" by linarith
  with False show ?thesis by (simp add: round_half_up_def)
qed

lemma toFixed_0: "toFixed 0 (Some r) = int_string (round_half_up r)"
  by (simp add: toFixed_def int_string_def Let_def)

lemma bitcoin_balance_eq:
  "toString_integer (decimalPlaces 0 (totalSats addrs)) =
     int_string (round_half_up (sum_list (map address_sats addrs)))"
  by (simp add: toString_integer_def decimalPlaces_def totalSats_eq toFixed_0 round_half_up_of_int)

lemma account_body_eq:
  "account_body f (k, a) p = Some (record_account k (recorded f a) p)"
proof (cases "chain a")
  case Ethereum
  let ?e = "f Ethereum (network a) None None"
  let ?p3 = "balances_byId_set ?e (balance a) (balances_ids_push ?e
               (accounts_byId_set k [?e] (accounts_ids_push k (accounts_byId_set k [] p))))"
  have look: "map_of (byId (accounts ?p3)) k = Some [?e]"
    by (simp add: balances_byId_set_def balances_ids_push_def accounts_byId_set_def
        accounts_ids_push_def AList.update_conv')
  show ?thesis
  proof (cases "tokens (chainSpecific a)")
    case None
    with Ethereum show ?thesis
      by (simp add: Let_def account_body_def accounts_byId_push_def accounts_byId_set_def
          accounts_ids_push_def balances_byId_set_def balances_ids_push_def
          AList.update_conv' record_account_def recorded_def set_all_def account_tokens_def)
  next
    case (Some ts)
    with Ethereum forEach_token_body [OF look, of f Ethereum "network a" ts] show ?thesis
      by (simp add: Let_def account_body_def accounts_byId_push_def accounts_byId_set_def
          accounts_ids_push_def balances_byId_set_def balances_ids_push_def
          AList.update_conv' record_account_def recorded_def set_all_def comp_def
          account_tokens_def)
  qed
next
  case Bitcoin
  then show ?thesis
    by (simp add: Let_def account_body_def accounts_byId_push_def accounts_byId_set_def
        accounts_ids_push_def balances_byId_set_def balances_ids_push_def
        AList.update_conv' record_account_def recorded_def set_all_def
        bitcoin_balance_eq account_addresses_def)
next
  case (OtherChain s)
  then show ?thesis
    by (simp add: Let_def account_body_def accounts_byId_set_def
        accounts_ids_push_def record_account_def recorded_def set_all_def)
qed

lemma forEach_account_body:
  "forEach (account_body f) args p = Some (record_all f args p)"
proof (induction args arbitrary: p)
  case Nil
  show ?case by (simp add: record_all_def)
next
  case (Cons e args)
  have "account_body f e p = Some (record_account (fst e) (recorded f (snd e)) p)"
    using account_body_eq [of f "fst e" "snd e" p] by simp
  with Cons.IH show ?case by (simp add: record_all_def)
qed

lemma accountsToPortfolio_eq:
  "accountsToPortfolio f args = Some (record_all f args initialState)"
  by (simp add: accountsToPortfolio_def cloneDeep_def forEach_account_body)

lemma keys_set_all: "fst ` set (set_all kvs ob) = fst ` set ob \<union> fst ` set kvs"
  unfolding set_all_def
  by (induction kvs arbitrary: ob) (auto simp: AList.dom_update)

lemma distinct_set_all: "distinct (map fst ob) \<Longrightarrow> distinct (map fst (set_all kvs ob))"
  unfolding set_all_def
  by (induction kvs arbitrary: ob) (simp_all add: AList.distinct_update)

lemma set_update_cases:
  "(k', v') \<in> set (AList.update k v al) \<Longrightarrow> (k', v') = (k, v) \<or> (k', v') \<in> set al"
  by (induction al) (auto split: if_splits)


lemma record_account_inv:
  assumes "assets_have_balances p"
  shows "assets_have_balances (record_account k kvs p)"
  unfolding assets_have_balances_def
proof (clarify)
  fix k' xs x
  assume mem: "(k', xs) \<in> set (byId (accounts (record_account k kvs p)))" and x: "x \<in> set xs"
  from mem have "(k', xs) = (k, map fst kvs) \<or> (k', xs) \<in> set (byId (accounts p))"
    by (auto simp: record_account_def dest: set_update_cases)
  then show "x \<in> fst ` set (byId (balances (record_account k kvs p)))"
  proof
    assume "(k', xs) = (k, map fst kvs)"
    with x show ?thesis by (auto simp: record_account_def keys_set_all)
  next
    assume "(k', xs) \<in> set (byId (accounts p))"
    with assms x have "x \<in> fst ` set (byId (balances p))"
      by (auto simp: assets_have_balances_def)
    then show ?thesis by (simp add: record_account_def keys_set_all)
  qed
qed

lemma record_all_inv:
  "assets_have_balances p \<Longrightarrow> assets_have_balances (record_all f args p)"
  unfolding record_all_def
  by (induction args arbitrary: p) (simp_all add: record_account_inv)

lemma initialState_inv: "assets_have_balances initialState"
  by (simp add: assets_have_balances_def initialState_def)

lemma set_all_append: "set_all (xs @ ys) ob = set_all ys (set_all xs ob)"
  by (simp add: set_all_def)

lemma set_all_Nil: "set_all [] ob = ob"
  by (simp add: set_all_def)

lemma record_all_Nil: "record_all f [] p = p"
  by (simp add: record_all_def)

lemma record_all_Cons:
  "record_all f (e # args) p = record_all f args (record_account (fst e) (recorded f (snd e)) p)"
  by (simp add: record_all_def)

lemma record_all_append:
  "record_all f (xs @ ys) p = record_all f ys (record_all f xs p)"
  by (simp add: record_all_def)

lemma record_all_balances:
  "balances (record_all f args p) =
     \<lparr>byId = set_all (concat (map (\<lambda>e. recorded f (snd e)) args)) (byId (balances p)),
      ids = ids (balances p) @ concat (map (\<lambda>e. map fst (recorded f (snd e))) args)\<rparr>"
proof (induction args arbitrary: p)
  case Nil
  show ?case by (simp add: record_all_Nil set_all_Nil)
next
  case (Cons e args)
  show ?case
    by (simp add: record_all_Cons Cons.IH record_account_def set_all_append)
qed

lemma record_all_accounts:
  "accounts (record_all f args p) =
     \<lparr>byId = set_all (map (\<lambda>e. (fst e, map fst (recorded f (snd e)))) args) (byId (accounts p)),
      ids = ids (accounts p) @ map fst args\<rparr>"
proof (induction args arbitrary: p)
  case Nil
  show ?case by (simp add: record_all_Nil set_all_Nil)
next
  case (Cons e args)
  show ?case
    by (simp add: record_all_Cons Cons.IH record_account_def set_all_def)
qed

lemma map_of_set_all_notin:
  "k \<notin> fst ` set kvs \<Longrightarrow> map_of (set_all kvs ob) k = map_of ob k"
  unfolding set_all_def
  by (induction kvs arbitrary: ob) (auto simp: AList.update_conv')

lemma map_of_set_all_last:
  "k \<notin> fst ` set post \<Longrightarrow> map_of (set_all (pre @ (k, v) # post) ob) k = Some v"
  by (simp add: set_all_append map_of_set_all_notin)
     (simp add: set_all_def AList.update_conv' map_of_set_all_notin [unfolded set_all_def])

lemma recorded_other: "chain a \<noteq> Ethereum \<Longrightarrow> chain a \<noteq> Bitcoin \<Longrightarrow> recorded f a = []"
  by (cases "chain a") (simp_all add: recorded_def)

lemma map_of_set_all_cong:
  "map_of ob k = map_of ob' k \<Longrightarrow> map_of (set_all kvs ob) k = map_of (set_all kvs ob') k"
  unfolding set_all_def
  by (induction kvs arbitrary: ob ob') (simp_all add: AList.update_conv')

subsection \<open>Lower case, and reading back a printed integer\<close>

lemma lower_char_not_upper:
  "\<not> (65 \<le> (of_char (lower_char c) :: nat) \<and> (of_char (lower_char c) :: nat) \<le> 90)"
  by (auto simp: lower_char_def Let_def)

lemma toLowerCase_not_upper:
  "c \<in> set (toLowerCase s) \<Longrightarrow> \<not> (65 \<le> (of_char c :: nat) \<and> (of_char c :: nat) \<le> 90)"
  using lower_char_not_upper by (auto simp: toLowerCase_def)

lemma digit_of_char_of:
  assumes "d < 10"
  shows "digit_of (char_of (48 + d)) = Some (int d)"
proof -
  have "(of_char (char_of (48 + d)) :: int) = int (of_char (char_of (48 + d)))"
    by (simp only: of_nat_of_char)
  also have "\<dots> = int (48 + d)"
    using assms by simp
  finally show ?thesis
    using assms by (simp add: digit_of_def Let_def)
qed

lemma digits_small: "n < 10 \<Longrightarrow> digits n = [char_of (48 + n)]"
  by (subst digits.simps) simp

lemma digits_large: "\<not> n < 10 \<Longrightarrow> digits n = digits (n div 10) @ [char_of (48 + n mod 10)]"
  by (subst digits.simps) simp

lemma digits_value_snoc:
  "digits_value acc (xs @ [c]) =
     (case digits_value acc xs of
        None \<Rightarrow> None
      | Some v \<Rightarrow> (case digit_of c of None \<Rightarrow> None | Some d \<Rightarrow> Some (10 * v + d)))"
  by (induction xs arbitrary: acc) (simp_all split: option.splits)

lemma digits_value_digits:
  "digits_value acc (digits n) = Some (acc * 10 ^ length (digits n) + int n)"
proof (induction n arbitrary: acc rule: digits.induct)
  case (1 n)
  show ?case
  proof (cases "n < 10")
    case True
    then show ?thesis
      by (simp only: digits_small) (simp add: digit_of_char_of)
  next
    case False
    have m: "n mod 10 < 10" by simp
    have "digits_value acc (digits n) =
            Some (10 * (acc * 10 ^ length (digits (n div 10)) + int (n div 10)) + int (n mod 10))"
      by (simp only: digits_large [OF False] digits_value_snoc "1.IH" [OF False]
          digit_of_char_of [OF m] option.case)
    also have "10 * (acc * 10 ^ length (digits (n div 10)) + int (n div 10)) + int (n mod 10) =
                 acc * 10 ^ length (digits n) + int n"
    proof -
      have "int n = 10 * int (n div 10) + int (n mod 10)"
        by (simp add: zdiv_int zmod_int)
      then show ?thesis
        by (simp add: digits_large [OF False] algebra_simps)
    qed
    finally show ?thesis .
  qed
qed

lemma digits_all_digits: "c \<in> set (digits n) \<Longrightarrow> digit_of c \<noteq> None"
proof (induction n rule: digits.induct)
  case (1 n)
  show ?case
  proof (cases "n < 10")
    case True
    with "1.prems" show ?thesis by (simp add: digits_small digit_of_char_of)
  next
    case False
    have m: "n mod 10 < 10" by simp
    from "1.prems" False "1.IH" digit_of_char_of [OF m] show ?thesis
      by (auto simp: digits_large)
  qed
qed

lemma digits_nonempty: "digits n \<noteq> []"
  by (cases "n < 10") (simp_all add: digits_small digits_large)

lemma digit_of_point: "digit_of CHR ''.'' = None"
  by (simp add: digit_of_def)

lemma digit_of_minus: "digit_of CHR ''-'' = None"
  by (simp add: digit_of_def)

lemma unsigned_decimal_digits: "unsigned_decimal (digits n) = Some (of_nat n)"
proof -
  have "\<forall>c \<in> set (digits n). c \<noteq> CHR ''.''"
    using digits_all_digits digit_of_point by blast
  then have tw: "takeWhile (\<lambda>c. c \<noteq> CHR ''.'') (digits n) = digits n"
    by (simp add: takeWhile_eq_all_conv)
  show ?thesis
    by (simp add: unsigned_decimal_def tw digits_nonempty digits_value_digits)
qed

lemma bn_digits: "bn (digits n) = Some (of_nat n)"
proof -
  obtain c r where cr: "digits n = c # r"
    using digits_nonempty [of n] by (cases "digits n") auto
  then have "c \<in> set (digits n)" by simp
  then have "c \<noteq> CHR ''-''"
    using digits_all_digits digit_of_minus by blast
  then have "bn (c # r) = unsigned_decimal (c # r)"
    by (simp add: bn_def)
  then show ?thesis by (simp add: cr [symmetric] unsigned_decimal_digits)
qed

lemma bn_int_string: "bn (int_string z) = Some (of_int z)"
proof (cases "z < 0")
  case True
  then have "bn (int_string z) = map_option uminus (unsigned_decimal (digits (nat \<bar>z\<bar>)))"
    by (simp add: int_string_def bn_def)
  with True show ?thesis by (simp add: unsigned_decimal_digits)
next
  case False
  then show ?thesis by (simp add: int_string_def bn_digits)
qed

text \<open>A value printed with \<open>toFixed\<close> reads back as the value rounded to that many places.\<close>

lemma digit_of_zero: "digit_of CHR ''0'' = Some 0"
  by (simp add: digit_of_def)

lemma digits_value_zeros: "digits_value 0 (replicate k CHR ''0'' @ xs) = digits_value 0 xs"
  by (induction k) (simp_all add: digit_of_zero)

lemma length_digits_le: "k < 10 ^ dp \<Longrightarrow> 0 < dp \<Longrightarrow> length (digits k) \<le> dp"
proof (induction k arbitrary: dp rule: digits.induct)
  case (1 k)
  show ?case
  proof (cases "k < 10")
    case True
    with "1.prems" show ?thesis by (simp add: digits_small)
  next
    case False
    from "1.prems"(2) obtain d where dp: "dp = Suc d" by (cases dp) auto
    have d: "0 < d"
    proof (rule ccontr)
      assume "\<not> 0 < d"
      then have "d = 0" by simp
      with "1.prems"(1) False show False by (simp add: dp)
    qed
    from "1.prems"(1) have "k div 10 < 10 ^ d"
      by (simp add: dp less_mult_imp_div_less mult.commute)
    from "1.IH" [OF False this d] show ?thesis
      by (simp add: digits_large [OF False] dp)
  qed
qed

lemma unsigned_decimal_fixed:
  assumes dp: "0 < dp"
  shows "unsigned_decimal (digits (a div 10 ^ dp) @ ''.'' @ pad_left dp (digits (a mod 10 ^ dp))) =
           Some (of_nat a / 10 ^ dp)"
proof -
  let ?ip = "digits (a div 10 ^ dp)"
  let ?fp = "pad_left dp (digits (a mod 10 ^ dp))"
  have nodot: "\<And>c. c \<in> set ?ip \<Longrightarrow> c \<noteq> CHR ''.''"
    using digits_all_digits digit_of_point by blast
  have tw: "takeWhile (\<lambda>c. c \<noteq> CHR ''.'') (?ip @ ''.'' @ ?fp) = ?ip"
    using nodot by (simp add: takeWhile_append2)
  have dr: "drop (length ?ip + 1) (?ip @ ''.'' @ ?fp) = ?fp"
    by simp
  have len: "length (digits (a mod 10 ^ dp)) \<le> dp"
    using dp by (intro length_digits_le) simp_all
  then have lfp: "length ?fp = dp"
    by (simp add: pad_left_def)
  have vi: "digits_value 0 ?ip = Some (int (a div 10 ^ dp))"
    by (simp add: digits_value_digits)
  have vf: "digits_value 0 ?fp = Some (int (a mod 10 ^ dp))"
    by (simp add: pad_left_def digits_value_zeros digits_value_digits)
  have "(of_nat (a div 10 ^ dp) :: rat) + of_nat (a mod 10 ^ dp) / 10 ^ dp = of_nat a / 10 ^ dp"
  proof -
    have "(of_nat a :: rat) = of_nat (a div 10 ^ dp * 10 ^ dp + a mod 10 ^ dp)"
      by (simp only: div_mult_mod_eq)
    also have "\<dots> = of_nat (a div 10 ^ dp) * 10 ^ dp + of_nat (a mod 10 ^ dp)"
      by (simp only: of_nat_add of_nat_mult of_nat_power of_nat_numeral)
    finally have e: "(of_nat a :: rat) =
        of_nat (a div 10 ^ dp) * 10 ^ dp + of_nat (a mod 10 ^ dp)" .
    have "(of_nat (a div 10 ^ dp) :: rat) + of_nat (a mod 10 ^ dp) / 10 ^ dp =
            (of_nat (a div 10 ^ dp) * 10 ^ dp + of_nat (a mod 10 ^ dp)) / 10 ^ dp"
      by (simp add: add_divide_distrib)
    then show ?thesis
      by (simp only: e [symmetric])
  qed
  then show ?thesis
    unfolding unsigned_decimal_def Let_def tw dr
    by (simp add: digits_nonempty vi vf lfp)
qed

lemma bn_digit_first:
  assumes "s = digits q @ rest"
  shows "bn s = unsigned_decimal s"
proof -
  obtain c r where cr: "digits q = c # r"
    using digits_nonempty [of q] by (cases "digits q") auto
  then have "c \<in> set (digits q)" by simp
  then have "c \<noteq> CHR ''-''"
    using digits_all_digits digit_of_minus by blast
  then show ?thesis
    by (simp add: assms cr bn_def)
qed

lemma bn_toFixed_Some:
  assumes dp: "0 < dp"
  shows "bn (toFixed dp (Some r)) = decimalPlaces dp (Some r)"
proof -
  define m where "m = round_half_up (r * 10 ^ dp)"
  define a where "a = nat \<bar>m\<bar>"
  let ?u = "digits (a div 10 ^ dp) @ ''.'' @ pad_left dp (digits (a mod 10 ^ dp))"
  have u: "unsigned_decimal ?u = Some (of_nat a / 10 ^ dp)"
    using dp by (rule unsigned_decimal_fixed)
  have tf: "toFixed dp (Some r) = (if m < 0 then ''-'' else []) @ ?u"
    using dp by (simp add: toFixed_def Let_def m_def a_def)
  have dpl: "decimalPlaces dp (Some r) = Some (of_int m / 10 ^ dp)"
    by (simp add: decimalPlaces_def m_def)
  show ?thesis
  proof (cases "m < 0")
    case True
    then have "bn (toFixed dp (Some r)) = map_option uminus (unsigned_decimal ?u)"
      by (simp add: tf bn_def)
    also have "\<dots> = Some (- (of_nat a / 10 ^ dp))"
      by (simp only: u option.map)
    also have "- ((of_nat a :: rat) / 10 ^ dp) = of_int m / 10 ^ dp"
      using True by (simp add: a_def)
    finally show ?thesis by (simp add: dpl)
  next
    case False
    then have "toFixed dp (Some r) = digits (a div 10 ^ dp) @ (''.'' @ pad_left dp (digits (a mod 10 ^ dp)))"
      by (simp add: tf)
    from bn_digit_first [OF this] have "bn (toFixed dp (Some r)) = unsigned_decimal ?u"
      using False by (simp add: tf)
    also have "\<dots> = Some (of_nat a / 10 ^ dp)" by (rule u)
    also have "(of_nat a :: rat) / 10 ^ dp = of_int m / 10 ^ dp"
      using False by (simp add: a_def)
    finally show ?thesis by (simp add: dpl)
  qed
qed

lemma bn_NaN: "bn ''NaN'' = None"
  by code_simp

lemma bn_toFixed:
  assumes "0 < dp"
  shows "bn (toFixed dp x) = decimalPlaces dp x"
proof (cases x)
  case None
  then show ?thesis by (simp add: toFixed_def decimalPlaces_def bn_NaN)
next
  case (Some r)
  with assms show ?thesis by (simp add: bn_toFixed_Some)
qed

lemma sum_list_Ints: "(\<And>x. x \<in> set xs \<Longrightarrow> f x \<in> \<int>) \<Longrightarrow> sum_list (map f xs) \<in> (\<int> :: rat set)"
  by (induction xs) simp_all

lemma round_half_up_Ints: "r \<in> \<int> \<Longrightarrow> of_int (round_half_up r) = r"
  by (auto simp: Ints_def round_half_up_of_int)

lemma record_account_lookup_account:
  "map_of (byId (accounts (record_account k kvs p))) k = Some (map fst kvs)"
  by (simp add: record_account_def AList.update_conv')

lemma ev_sum: "int_string (round_half_up (sum_list (map sats_of [Some ''100'', Some ''250'', Some ''0'']))) = ''350''"
  by code_simp

lemma ev_zero: "int_string (round_half_up (sum_list (map sats_of []))) = ''0''"
  by code_simp

lemma map_of_set_all_fresh:
  "k \<notin> fst ` set rest \<Longrightarrow> map_of (set_all ((k, v) # rest) ob) k = Some v"
  using map_of_set_all_last [of k rest "[]" v ob] by simp

lemma accountsToPortfolio_single:
  "accountsToPortfolio f [(k, a)] = Some (record_account k (recorded f a) initialState)"
  by (simp add: accountsToPortfolio_eq record_all_Cons record_all_Nil)

lemma set_all_three:
  "distinct [x, y, z] \<Longrightarrow>
   set_all [(x, u), (y, v), (z, w)] [] = [(x, u), (y, v), (z, w)]"
  by (auto simp: set_all_def)

section \<open>Claims about the normalizer\<close>

text \<open>
  C1. For every input mapping, \<open>accountsToPortfolio\<close> returns a Portfolio, and in it
  every asset identifier that appears in the asset list of any account
  (\<open>accounts.byId[accountId]\<close>) is a key of the balances index \<open>balances.byId\<close>.
\<close>

theorem accountsToPortfolio_assets_have_balances:
  "\<exists>p. accountsToPortfolio toCAIP19 args = Some p \<and>
       (\<forall>k xs x. map_of (byId (accounts p)) k = Some xs \<longrightarrow> x \<in> set xs \<longrightarrow>
                  x \<in> fst ` set (byId (balances p)))"
proof -
  let ?p = "record_all toCAIP19 args initialState"
  have inv: "assets_have_balances ?p"
    by (rule record_all_inv [OF initialState_inv])
  have "\<forall>k xs x. map_of (byId (accounts ?p)) k = Some xs \<longrightarrow> x \<in> set xs \<longrightarrow>
                  x \<in> fst ` set (byId (balances ?p))"
  proof (intro allI impI)
    fix k xs x
    assume "map_of (byId (accounts ?p)) k = Some xs" and x: "x \<in> set xs"
    then have "(k, xs) \<in> set (byId (accounts ?p))" by (simp add: map_of_SomeD)
    with inv x show "x \<in> fst ` set (byId (balances ?p))"
      unfolding assets_have_balances_def by blast
  qed
  with accountsToPortfolio_eq [of toCAIP19 args] show ?thesis by blast
qed

text \<open>
  The invariant at work on an account with two tokens: the second token's identifier is in
  the account's list, so it is a key of the balances index.
\<close>

theorem accountsToPortfolio_assets_have_balances_witness:
  "\<exists>p. accountsToPortfolio sample_toCAIP19 [(''eip155:1:0xab'', ex_eth)] = Some p \<and>
       map_of (byId (accounts p)) ''eip155:1:0xab'' =
         Some [''eip155:1/slip44:60'', ''eip155:1/erc20:0xaa'', ''eip155:1/erc20:0xbb''] \<and>
       ''eip155:1/erc20:0xbb'' \<in> fst ` set (byId (balances p))"
proof -
  let ?args = "[(''eip155:1:0xab'', ex_eth)]"
  let ?xs = "[''eip155:1/slip44:60'', ''eip155:1/erc20:0xaa'', ''eip155:1/erc20:0xbb'']"
  obtain p where p: "accountsToPortfolio sample_toCAIP19 ?args = Some p"
    and inv: "\<forall>k xs x. map_of (byId (accounts p)) k = Some xs \<longrightarrow> x \<in> set xs \<longrightarrow>
                x \<in> fst ` set (byId (balances p))"
    using accountsToPortfolio_assets_have_balances [of sample_toCAIP19 ?args] by blast
  have "accounts (the (accountsToPortfolio sample_toCAIP19 ?args)) =
          \<lparr>byId = [(''eip155:1:0xab'', ?xs)], ids = [''eip155:1:0xab'']\<rparr>"
    by code_simp
  with p have look: "map_of (byId (accounts p)) ''eip155:1:0xab'' = Some ?xs"
    by simp
  have "''eip155:1/erc20:0xbb'' \<in> set ?xs" by simp
  with inv look have "''eip155:1/erc20:0xbb'' \<in> fst ` set (byId (balances p))"
    by blast
  with p look show ?thesis by blast
qed

text \<open>
  C3, as the claim states it, fails: two account-based records on the same chain and
  network record the same native identifier, and \<open>balances.ids\<close> holds it twice.
\<close>

theorem balances_ids_not_distinct:
  "accountsToPortfolio sample_toCAIP19
       [(''eip155:1:0xcd'', ex_eth_plain), (''eip155:1:0xef'', ex_eth_second)] =
     Some \<lparr>accounts = \<lparr>byId = [(''eip155:1:0xcd'', [''eip155:1/slip44:60'']),
                                 (''eip155:1:0xef'', [''eip155:1/slip44:60''])],
                         ids = [''eip155:1:0xcd'', ''eip155:1:0xef'']\<rparr>,
           balances = \<lparr>byId = [(''eip155:1/slip44:60'', ''3'')],
                         ids = [''eip155:1/slip44:60'', ''eip155:1/slip44:60'']\<rparr>\<rparr> \<and>
   \<not> distinct [''eip155:1/slip44:60'', ''eip155:1/slip44:60'']"
  by code_simp

text \<open>
  C3, amended. For every input mapping, an identifier occurs in \<open>balances.ids\<close> if and
  only if it is a key of \<open>balances.byId\<close>, and the keys of \<open>balances.byId\<close> are pairwise
  different. \<open>balances.ids\<close> itself holds one occurrence per recorded pair of identifier
  and balance, in recording order, so it repeats an identifier that is recorded more than
  once.
\<close>

theorem balances_ids_are_recorded_keys:
  "\<exists>p. accountsToPortfolio toCAIP19 args = Some p \<and>
       set (ids (balances p)) = fst ` set (byId (balances p)) \<and>
       distinct (map fst (byId (balances p))) \<and>
       ids (balances p) = concat (map (\<lambda>e. map fst (recorded toCAIP19 (snd e))) args)"
proof -
  let ?p = "record_all toCAIP19 args initialState"
  let ?kvs = "concat (map (\<lambda>e. recorded toCAIP19 (snd e)) args)"
  have b: "balances ?p =
      \<lparr>byId = set_all ?kvs [], ids = concat (map (\<lambda>e. map fst (recorded toCAIP19 (snd e))) args)\<rparr>"
    by (simp add: record_all_balances initialState_def)
  have m: "map fst ?kvs = concat (map (\<lambda>e. map fst (recorded toCAIP19 (snd e))) args)"
    by (simp add: map_concat comp_def)
  have keys: "fst ` set (byId (balances ?p)) = set (map fst ?kvs)"
    by (simp add: b keys_set_all)
  have "set (ids (balances ?p)) = fst ` set (byId (balances ?p))"
    unfolding keys m by (simp add: b)
  moreover have "distinct (map fst (byId (balances ?p)))"
    using distinct_set_all [of "[]" ?kvs] by (simp add: b)
  moreover have "ids (balances ?p) = concat (map (\<lambda>e. map fst (recorded toCAIP19 (snd e))) args)"
    by (simp add: b)
  ultimately show ?thesis
    using accountsToPortfolio_eq [of toCAIP19 args] by blast
qed

text \<open>
  C4, as the claim states it, fails: a record of an unknown chain kind leaves an account
  entry behind, so the result differs from the one without the record.
\<close>

theorem unknown_chain_registers_account:
  "accountsToPortfolio sample_toCAIP19 [(''cosmos:4:c1'', ex_other)] =
     Some \<lparr>accounts = \<lparr>byId = [(''cosmos:4:c1'', [])], ids = [''cosmos:4:c1'']\<rparr>,
           balances = \<lparr>byId = [], ids = []\<rparr>\<rparr> \<and>
   accountsToPortfolio sample_toCAIP19 [(''cosmos:4:c1'', ex_other)] \<noteq>
     accountsToPortfolio sample_toCAIP19 []"
  by code_simp

text \<open>
  C4, amended. A record whose chain kind is neither Ethereum nor Bitcoin raises no error
  and contributes no balance entry: the balances index is the one of the input without the
  record, and so is every other account's asset list. The record does contribute an
  account entry: its identifier is appended to \<open>accounts.ids\<close> and mapped to the empty
  asset list.
\<close>

theorem unknown_chain_adds_empty_account:
  assumes "chain a \<noteq> Ethereum" and "chain a \<noteq> Bitcoin"
  shows "\<exists>p q. accountsToPortfolio toCAIP19 (pre @ (k, a) # post) = Some p \<and>
               accountsToPortfolio toCAIP19 (pre @ post) = Some q \<and>
               balances p = balances q \<and>
               ids (accounts p) = map fst pre @ k # map fst post \<and>
               (\<forall>k'. k' \<noteq> k \<longrightarrow> map_of (byId (accounts p)) k' = map_of (byId (accounts q)) k') \<and>
               (k \<notin> fst ` set post \<longrightarrow> map_of (byId (accounts p)) k = Some [])"
proof -
  let ?p = "record_all toCAIP19 (pre @ (k, a) # post) initialState"
  let ?q = "record_all toCAIP19 (pre @ post) initialState"
  let ?g = "\<lambda>e. (fst e, map fst (recorded toCAIP19 (snd e)))"
  have r: "recorded toCAIP19 a = []"
    using assms by (rule recorded_other)
  have bal: "balances ?p = balances ?q"
    by (simp add: record_all_balances r)
  have accs: "ids (accounts ?p) = map fst pre @ k # map fst post"
    by (simp add: record_all_accounts initialState_def)
  have "map ?g (pre @ (k, a) # post) = map ?g pre @ [(k, [])] @ map ?g post"
    by (simp add: r)
  then have "set_all (map ?g (pre @ (k, a) # post)) [] =
          set_all (map ?g post) (set_all [(k, [])] (set_all (map ?g pre) []))"
    by (simp only: set_all_append)
  then have byp: "byId (accounts ?p) =
      set_all (map ?g post) (AList.update k [] (set_all (map ?g pre) []))"
    by (simp add: record_all_accounts initialState_def set_all_def)
  have byq: "byId (accounts ?q) = set_all (map ?g post) (set_all (map ?g pre) [])"
    by (simp add: record_all_accounts initialState_def set_all_append)
  have other: "map_of (byId (accounts ?p)) k' = map_of (byId (accounts ?q)) k'" if "k' \<noteq> k" for k'
    unfolding byp byq using that
    by (intro map_of_set_all_cong) (simp add: AList.update_conv')
  have own: "map_of (byId (accounts ?p)) k = Some []" if "k \<notin> fst ` set post"
  proof -
    from that have "k \<notin> fst ` set (map ?g post)" by (simp add: image_image)
    then show ?thesis
      unfolding byp by (simp add: map_of_set_all_notin AList.update_conv')
  qed
  show ?thesis
  proof (intro exI conjI allI impI)
    show "accountsToPortfolio toCAIP19 (pre @ (k, a) # post) = Some ?p"
      by (rule accountsToPortfolio_eq)
    show "accountsToPortfolio toCAIP19 (pre @ post) = Some ?q"
      by (rule accountsToPortfolio_eq)
    show "balances ?p = balances ?q" by (rule bal)
    show "ids (accounts ?p) = map fst pre @ k # map fst post" by (rule accs)
    show "map_of (byId (accounts ?p)) k' = map_of (byId (accounts ?q)) k'" if "k' \<noteq> k" for k'
      using that by (rule other)
    show "map_of (byId (accounts ?p)) k = Some []" if "k \<notin> fst ` set post"
      using that by (rule own)
  qed
qed

text \<open>An unknown-chain record between an Ethereum and a Bitcoin record.\<close>

theorem unknown_chain_adds_empty_account_witness:
  "\<exists>p q. accountsToPortfolio sample_toCAIP19
            ([(ex_key_eth, ex_eth_plain)] @ (ex_key_other, ex_other) # [(ex_key_btc, ex_btc)]) = Some p \<and>
         accountsToPortfolio sample_toCAIP19
            ([(ex_key_eth, ex_eth_plain)] @ [(ex_key_btc, ex_btc)]) = Some q \<and>
         balances p = balances q \<and>
         map_of (byId (accounts p)) ex_key_eth = map_of (byId (accounts q)) ex_key_eth \<and>
         map_of (byId (accounts p)) ex_key_other = Some []"
proof -
  have c: "chain ex_other \<noteq> Ethereum" "chain ex_other \<noteq> Bitcoin"
    by (simp_all add: ex_other_def)
  have k: "ex_key_other \<notin> fst ` set [(ex_key_btc, ex_btc)]"
    by (simp add: ex_key_other_def ex_key_btc_def)
  have d: "ex_key_eth \<noteq> ex_key_other"
    by (simp add: ex_key_other_def ex_key_eth_def)
  from unknown_chain_adds_empty_account [OF c, of sample_toCAIP19
      "[(ex_key_eth, ex_eth_plain)]" ex_key_other "[(ex_key_btc, ex_btc)]"] k d
  show ?thesis by blast
qed

text \<open>
  C7. Processing a Bitcoin record, from any state of the portfolio, stores exactly one
  asset identifier in the account's list and stores under it the sum of the balances of
  the account's addresses, an absent or invalid address balance counting as zero, rounded
  to an integer and printed in decimal digits. When every address balance is an integer,
  reading the stored string back gives exactly the sum. Address balances \<open>"100"\<close>,
  \<open>"250"\<close>, \<open>"0"\<close> give \<open>"350"\<close>, and an account with no addresses gives \<open>"0"\<close>.
  The balances index is keyed by asset identifier, so a later record that writes the same
  identifier replaces the stored balance.
\<close>

theorem bitcoin_record_one_asset_summed:
  assumes "chain a = Bitcoin"
  shows "\<exists>p' bal. account_body toCAIP19 (k, a) p = Some p' \<and>
           map_of (byId (accounts p')) k = Some [toCAIP19 Bitcoin (network a) None None] \<and>
           ids (balances p') = ids (balances p) @ [toCAIP19 Bitcoin (network a) None None] \<and>
           map_of (byId (balances p')) (toCAIP19 Bitcoin (network a) None None) = Some bal \<and>
           bal = int_string (round_half_up (sum_list (map address_sats (account_addresses a)))) \<and>
           ((\<forall>ad \<in> set (account_addresses a). address_sats ad \<in> \<int>) \<longrightarrow>
              bn bal = Some (sum_list (map address_sats (account_addresses a)))) \<and>
           (map address_balance (account_addresses a) = [Some ''100'', Some ''250'', Some ''0''] \<longrightarrow>
              bal = ''350'') \<and>
           (account_addresses a = [] \<longrightarrow> bal = ''0'')"
proof -
  let ?id = "toCAIP19 Bitcoin (network a) None None"
  let ?total = "sum_list (map address_sats (account_addresses a))"
  let ?bal = "int_string (round_half_up ?total)"
  let ?p' = "record_account k [(?id, ?bal)] p"
  have rec: "recorded toCAIP19 a = [(?id, ?bal)]"
    using assms by (simp add: recorded_def)
  have step: "account_body toCAIP19 (k, a) p = Some ?p'"
    using account_body_eq [of toCAIP19 k a p] by (simp add: rec)
  have acc: "map_of (byId (accounts ?p')) k = Some [?id]"
    by (simp add: record_account_lookup_account)
  have idl: "ids (balances ?p') = ids (balances p) @ [?id]"
    by (simp add: record_account_def)
  have look: "map_of (byId (balances ?p')) ?id = Some ?bal"
    by (simp add: record_account_def set_all_def AList.update_conv')
  have rt: "bn ?bal = Some ?total" if "\<forall>ad \<in> set (account_addresses a). address_sats ad \<in> \<int>"
  proof -
    from that have "?total \<in> \<int>" by (intro sum_list_Ints) simp
    then show ?thesis by (simp add: bn_int_string round_half_up_Ints)
  qed
  have m: "map address_sats xs = map sats_of (map address_balance xs)" for xs
    by (simp add: address_sats_def comp_def)
  have ex1: "?bal = ''350''"
    if "map address_balance (account_addresses a) = [Some ''100'', Some ''250'', Some ''0'']"
    by (simp only: m that ev_sum)
  have ex2: "?bal = ''0''" if "account_addresses a = []"
    using ev_zero by (simp add: that)
  show ?thesis
  proof (intro exI conjI impI)
    show "account_body toCAIP19 (k, a) p = Some ?p'" by (rule step)
    show "map_of (byId (accounts ?p')) k = Some [?id]" by (rule acc)
    show "ids (balances ?p') = ids (balances p) @ [?id]" by (rule idl)
    show "map_of (byId (balances ?p')) ?id = Some ?bal" by (rule look)
    show "?bal = ?bal" by (rule refl)
    show "bn ?bal = Some ?total" if "\<forall>ad \<in> set (account_addresses a). address_sats ad \<in> \<int>"
      using that by (rule rt)
    show "?bal = ''350''"
      if "map address_balance (account_addresses a) = [Some ''100'', Some ''250'', Some ''0'']"
      using that by (rule ex1)
    show "?bal = ''0''" if "account_addresses a = []"
      using that by (rule ex2)
  qed
qed

text \<open>The sample Bitcoin account with address balances 100, 250 and 0.\<close>

theorem bitcoin_record_one_asset_summed_witness:
  "\<exists>p'. account_body sample_toCAIP19 (ex_key_btc, ex_btc) initialState = Some p' \<and>
        map_of (byId (accounts p')) ex_key_btc = Some [sample_toCAIP19 Bitcoin (network ex_btc) None None] \<and>
        map_of (byId (balances p')) (sample_toCAIP19 Bitcoin (network ex_btc) None None) = Some ''350'' \<and>
        bn ''350'' = Some (sum_list (map address_sats (account_addresses ex_btc)))"
proof -
  have c: "chain ex_btc = Bitcoin"
    by (simp add: ex_btc_def)
  have bs: "map address_balance (account_addresses ex_btc) = [Some ''100'', Some ''250'', Some ''0'']"
    by (simp add: ex_btc_def account_addresses_def)
  have vs: "map address_sats (account_addresses ex_btc) = [100, 250, 0]"
    by code_simp
  have "\<forall>x \<in> set (map address_sats (account_addresses ex_btc)). x \<in> \<int>"
    by (simp only: vs) simp
  then have zs: "\<forall>ad \<in> set (account_addresses ex_btc). address_sats ad \<in> \<int>"
    by simp
  obtain p' bal where
    1: "account_body sample_toCAIP19 (ex_key_btc, ex_btc) initialState = Some p'" and
    2: "map_of (byId (accounts p')) ex_key_btc = Some [sample_toCAIP19 Bitcoin (network ex_btc) None None]" and
    3: "map_of (byId (balances p')) (sample_toCAIP19 Bitcoin (network ex_btc) None None) = Some bal" and
    4: "(\<forall>ad \<in> set (account_addresses ex_btc). address_sats ad \<in> \<int>) \<longrightarrow>
          bn bal = Some (sum_list (map address_sats (account_addresses ex_btc)))" and
    5: "map address_balance (account_addresses ex_btc) = [Some ''100'', Some ''250'', Some ''0''] \<longrightarrow>
          bal = ''350''"
    using bitcoin_record_one_asset_summed [OF c, of sample_toCAIP19 ex_key_btc initialState]
    by (elim exE conjE) (rule that)
  from 5 bs have b: "bal = ''350''" by (rule mp)
  from 4 zs have "bn bal = Some (sum_list (map address_sats (account_addresses ex_btc)))" by (rule mp)
  with 1 2 3 b show ?thesis by simp
qed

text \<open>
  C8. Processing an Ethereum record, from any state of the portfolio, makes the account's
  asset list the native identifier followed by one identifier per token, in order, and
  appends the same identifiers to \<open>balances.ids\<close>; every one of them becomes a key of
  \<open>balances.byId\<close>. A token's identifier is the lower-cased result of \<open>toCAIP19\<close> and
  has no upper-case letter. The native identifier maps to the account balance and a
  token's identifier to that token's balance, unless a later token of the record has the
  same identifier and overwrites it. For an input of one record with two tokens the asset
  list and \<open>balances.ids\<close> have three entries, and so has \<open>balances.byId\<close> when the three
  identifiers differ; with no token list there is the single native entry.
\<close>

theorem ethereum_record_native_and_tokens:
  assumes "chain a = Ethereum"
  shows "\<exists>p' P.
           account_body toCAIP19 (k, a) p = Some p' \<and>
           map_of (byId (accounts p')) k =
             Some (toCAIP19 Ethereum (network a) None None #
                   map (tokenCAIP19 toCAIP19 Ethereum (network a)) (account_tokens a)) \<and>
           ids (balances p') =
             ids (balances p) @ toCAIP19 Ethereum (network a) None None #
               map (tokenCAIP19 toCAIP19 Ethereum (network a)) (account_tokens a) \<and>
           fst ` set (byId (balances p')) =
             fst ` set (byId (balances p)) \<union>
             set (toCAIP19 Ethereum (network a) None None #
                  map (tokenCAIP19 toCAIP19 Ethereum (network a)) (account_tokens a)) \<and>
           (toCAIP19 Ethereum (network a) None None
              \<notin> set (map (tokenCAIP19 toCAIP19 Ethereum (network a)) (account_tokens a)) \<longrightarrow>
              map_of (byId (balances p')) (toCAIP19 Ethereum (network a) None None) =
                Some (balance a)) \<and>
           (\<forall>i < length (account_tokens a).
              tokenCAIP19 toCAIP19 Ethereum (network a) (account_tokens a ! i)
                \<notin> set (map (tokenCAIP19 toCAIP19 Ethereum (network a))
                          (drop (Suc i) (account_tokens a))) \<longrightarrow>
              map_of (byId (balances p'))
                  (tokenCAIP19 toCAIP19 Ethereum (network a) (account_tokens a ! i)) =
                Some (token_balance (account_tokens a ! i))) \<and>
           (\<forall>t \<in> set (account_tokens a).
              tokenCAIP19 toCAIP19 Ethereum (network a) t =
                toLowerCase (toCAIP19 Ethereum (network a)
                               (Some (contractType t)) (Some (contract t))) \<and>
              (\<forall>c \<in> set (tokenCAIP19 toCAIP19 Ethereum (network a) t).
                 \<not> (65 \<le> (of_char c :: nat) \<and> (of_char c :: nat) \<le> 90))) \<and>
           accountsToPortfolio toCAIP19 [(k, a)] = Some P \<and>
           (\<forall>t1 t2. tokens (chainSpecific a) = Some [t1, t2] \<longrightarrow>
              ids (balances P) =
                [toCAIP19 Ethereum (network a) None None,
                 tokenCAIP19 toCAIP19 Ethereum (network a) t1,
                 tokenCAIP19 toCAIP19 Ethereum (network a) t2] \<and>
              map_of (byId (accounts P)) k =
                Some [toCAIP19 Ethereum (network a) None None,
                      tokenCAIP19 toCAIP19 Ethereum (network a) t1,
                      tokenCAIP19 toCAIP19 Ethereum (network a) t2] \<and>
              (distinct [toCAIP19 Ethereum (network a) None None,
                         tokenCAIP19 toCAIP19 Ethereum (network a) t1,
                         tokenCAIP19 toCAIP19 Ethereum (network a) t2] \<longrightarrow>
                 byId (balances P) =
                   [(toCAIP19 Ethereum (network a) None None, balance a),
                    (tokenCAIP19 toCAIP19 Ethereum (network a) t1, token_balance t1),
                    (tokenCAIP19 toCAIP19 Ethereum (network a) t2, token_balance t2)])) \<and>
           (tokens (chainSpecific a) = None \<longrightarrow>
              P = \<lparr>accounts = \<lparr>byId = [(k, [toCAIP19 Ethereum (network a) None None])],
                                ids = [k]\<rparr>,
                    balances = \<lparr>byId = [(toCAIP19 Ethereum (network a) None None, balance a)],
                                ids = [toCAIP19 Ethereum (network a) None None]\<rparr>\<rparr>)"
proof -
  let ?native = "toCAIP19 Ethereum (network a) None None"
  let ?tid = "tokenCAIP19 toCAIP19 Ethereum (network a)"
  let ?g = "\<lambda>t. (?tid t, token_balance t)"
  let ?ts = "account_tokens a"
  let ?kvs = "(?native, balance a) # map ?g ?ts"
  let ?p' = "record_account k ?kvs p"
  let ?P = "record_account k ?kvs initialState"
  have rec: "recorded toCAIP19 a = ?kvs"
    using assms by (simp add: recorded_def)
  have fsts: "map fst ?kvs = ?native # map ?tid ?ts"
    by (simp add: comp_def)
  have step: "account_body toCAIP19 (k, a) p = Some ?p'"
    using account_body_eq [of toCAIP19 k a p] by (simp only: rec)
  have acc: "map_of (byId (accounts ?p')) k = Some (?native # map ?tid ?ts)"
    by (simp only: record_account_lookup_account fsts)
  have idl: "ids (balances ?p') = ids (balances p) @ ?native # map ?tid ?ts"
    by (simp add: record_account_def comp_def)
  have bb: "byId (balances ?p') = set_all ?kvs (byId (balances p))"
    by (simp add: record_account_def)
  have keys: "fst ` set (byId (balances ?p')) =
                fst ` set (byId (balances p)) \<union> set (?native # map ?tid ?ts)"
    unfolding bb keys_set_all by (simp add: image_image)
  have nat: "map_of (byId (balances ?p')) ?native = Some (balance a)"
    if "?native \<notin> set (map ?tid ?ts)"
  proof -
    from that have "?native \<notin> fst ` set (map ?g ?ts)"
      by (simp add: image_image)
    then show ?thesis
      unfolding bb by (rule map_of_set_all_fresh)
  qed
  have tok: "map_of (byId (balances ?p')) (?tid (?ts ! i)) = Some (token_balance (?ts ! i))"
    if i: "i < length ?ts" and fresh: "?tid (?ts ! i) \<notin> set (map ?tid (drop (Suc i) ?ts))" for i
  proof -
    have split: "?ts = take i ?ts @ ?ts ! i # drop (Suc i) ?ts"
      using i by (rule id_take_nth_drop)
    have "map ?g ?ts = map ?g (take i ?ts) @ ?g (?ts ! i) # map ?g (drop (Suc i) ?ts)"
      by (subst split) simp
    then have kv: "?kvs = ((?native, balance a) # map ?g (take i ?ts)) @
                     (?tid (?ts ! i), token_balance (?ts ! i)) # map ?g (drop (Suc i) ?ts)"
      by simp
    from fresh have "?tid (?ts ! i) \<notin> fst ` set (map ?g (drop (Suc i) ?ts))"
      by (simp add: image_image)
    then show ?thesis
      unfolding bb by (subst kv) (rule map_of_set_all_last)
  qed
  have low1: "?tid t = toLowerCase (toCAIP19 Ethereum (network a)
                                     (Some (contractType t)) (Some (contract t)))" for t
    by (simp add: tokenCAIP19_def)
  have low2: "\<not> (65 \<le> (of_char c :: nat) \<and> (of_char c :: nat) \<le> 90)"
    if "c \<in> set (?tid t)" for t c
    using that unfolding low1 by (rule toLowerCase_not_upper)
  have whole: "accountsToPortfolio toCAIP19 [(k, a)] = Some ?P"
    by (simp only: accountsToPortfolio_single rec)
  have two_ids: "ids (balances ?P) = [?native, ?tid t1, ?tid t2]"
    and two_list: "map_of (byId (accounts ?P)) k = Some [?native, ?tid t1, ?tid t2]"
    if "tokens (chainSpecific a) = Some [t1, t2]" for t1 t2
  proof -
    from that have ts: "?ts = [t1, t2]" by (simp add: account_tokens_def)
    show "ids (balances ?P) = [?native, ?tid t1, ?tid t2]"
      by (simp add: record_account_def initialState_def ts)
    show "map_of (byId (accounts ?P)) k = Some [?native, ?tid t1, ?tid t2]"
      by (simp add: record_account_lookup_account ts)
  qed
  have two_byId: "byId (balances ?P) =
      [(?native, balance a), (?tid t1, token_balance t1), (?tid t2, token_balance t2)]"
    if "tokens (chainSpecific a) = Some [t1, t2]" and "distinct [?native, ?tid t1, ?tid t2]"
    for t1 t2
  proof -
    from that(1) have ts: "?ts = [t1, t2]" by (simp add: account_tokens_def)
    have "byId (balances ?P) =
            set_all [(?native, balance a), (?tid t1, token_balance t1), (?tid t2, token_balance t2)] []"
      by (simp add: record_account_def initialState_def ts)
    then show ?thesis by (simp only: set_all_three [OF that(2)])
  qed
  have none: "?P = \<lparr>accounts = \<lparr>byId = [(k, [?native])], ids = [k]\<rparr>,
                    balances = \<lparr>byId = [(?native, balance a)], ids = [?native]\<rparr>\<rparr>"
    if "tokens (chainSpecific a) = None"
    using that by (simp add: record_account_def initialState_def account_tokens_def set_all_def)
  show ?thesis
  proof (intro exI conjI impI allI ballI)
    show "account_body toCAIP19 (k, a) p = Some ?p'" by (rule step)
    show "map_of (byId (accounts ?p')) k = Some (?native # map ?tid ?ts)" by (rule acc)
    show "ids (balances ?p') = ids (balances p) @ ?native # map ?tid ?ts" by (rule idl)
    show "fst ` set (byId (balances ?p')) =
            fst ` set (byId (balances p)) \<union> set (?native # map ?tid ?ts)" by (rule keys)
    show "map_of (byId (balances ?p')) ?native = Some (balance a)"
      if "?native \<notin> set (map ?tid ?ts)" using that by (rule nat)
    show "map_of (byId (balances ?p')) (?tid (?ts ! i)) = Some (token_balance (?ts ! i))"
      if "i < length ?ts" "?tid (?ts ! i) \<notin> set (map ?tid (drop (Suc i) ?ts))" for i
      using that by (rule tok)
    show "?tid t = toLowerCase (toCAIP19 Ethereum (network a)
                                  (Some (contractType t)) (Some (contract t)))" for t
      by (rule low1)
    show "\<not> (65 \<le> (of_char c :: nat) \<and> (of_char c :: nat) \<le> 90)"
      if "t \<in> set ?ts" "c \<in> set (?tid t)" for t c
      using that(2) by (rule low2)
    show "accountsToPortfolio toCAIP19 [(k, a)] = Some ?P" by (rule whole)
    show "ids (balances ?P) = [?native, ?tid t1, ?tid t2]"
      if "tokens (chainSpecific a) = Some [t1, t2]" for t1 t2
      using that by (rule two_ids)
    show "map_of (byId (accounts ?P)) k = Some [?native, ?tid t1, ?tid t2]"
      if "tokens (chainSpecific a) = Some [t1, t2]" for t1 t2
      using that by (rule two_list)
    show "byId (balances ?P) =
        [(?native, balance a), (?tid t1, token_balance t1), (?tid t2, token_balance t2)]"
      if "tokens (chainSpecific a) = Some [t1, t2]" "distinct [?native, ?tid t1, ?tid t2]"
      for t1 t2
      using that by (rule two_byId)
    show "?P = \<lparr>accounts = \<lparr>byId = [(k, [?native])], ids = [k]\<rparr>,
                 balances = \<lparr>byId = [(?native, balance a)], ids = [?native]\<rparr>\<rparr>"
      if "tokens (chainSpecific a) = None"
      using that by (rule none)
  qed
qed

text \<open>The sample Ethereum account with two tokens.\<close>

theorem ethereum_record_native_and_tokens_witness:
  "\<exists>p' P. account_body sample_toCAIP19 (ex_key_ab, ex_eth) initialState = Some p' \<and>
      map_of (byId (balances p')) (sample_toCAIP19 Ethereum (network ex_eth) None None) =
        Some (balance ex_eth) \<and>
      map_of (byId (balances p')) (tokenCAIP19 sample_toCAIP19 Ethereum (network ex_eth) ex_token2) =
        Some (token_balance ex_token2) \<and>
      accountsToPortfolio sample_toCAIP19 [(ex_key_ab, ex_eth)] = Some P \<and>
      byId (balances P) =
        [(sample_toCAIP19 Ethereum (network ex_eth) None None, balance ex_eth),
         (tokenCAIP19 sample_toCAIP19 Ethereum (network ex_eth) ex_token1, token_balance ex_token1),
         (tokenCAIP19 sample_toCAIP19 Ethereum (network ex_eth) ex_token2, token_balance ex_token2)] \<and>
      length (byId (balances P)) = 3"
proof -
  let ?n = "sample_toCAIP19 Ethereum (network ex_eth) None None"
  let ?tid = "tokenCAIP19 sample_toCAIP19 Ethereum (network ex_eth)"
  have c: "chain ex_eth = Ethereum"
    by (simp add: ex_eth_def)
  have tk: "tokens (chainSpecific ex_eth) = Some [ex_token1, ex_token2]"
    by (simp add: ex_eth_def)
  have ts: "account_tokens ex_eth = [ex_token1, ex_token2]"
    by (simp add: account_tokens_def tk)
  have d: "distinct [?n, ?tid ex_token1, ?tid ex_token2]"
    by code_simp
  then have fresh_n: "?n \<notin> set (map ?tid (account_tokens ex_eth))"
    by (simp add: ts)
  have i: "1 < length (account_tokens ex_eth)"
    by (simp add: ts)
  have fresh_t: "?tid (account_tokens ex_eth ! 1) \<notin> set (map ?tid (drop (Suc 1) (account_tokens ex_eth)))"
    by (simp add: ts)
  obtain p' P where
    1: "account_body sample_toCAIP19 (ex_key_ab, ex_eth) initialState = Some p'" and
    2: "?n \<notin> set (map ?tid (account_tokens ex_eth)) \<longrightarrow>
          map_of (byId (balances p')) ?n = Some (balance ex_eth)" and
    3: "\<forall>i < length (account_tokens ex_eth).
          ?tid (account_tokens ex_eth ! i) \<notin> set (map ?tid (drop (Suc i) (account_tokens ex_eth))) \<longrightarrow>
          map_of (byId (balances p')) (?tid (account_tokens ex_eth ! i)) =
            Some (token_balance (account_tokens ex_eth ! i))" and
    4: "accountsToPortfolio sample_toCAIP19 [(ex_key_ab, ex_eth)] = Some P" and
    5: "\<forall>t1 t2. tokens (chainSpecific ex_eth) = Some [t1, t2] \<longrightarrow>
          ids (balances P) = [?n, ?tid t1, ?tid t2] \<and>
          map_of (byId (accounts P)) ex_key_ab = Some [?n, ?tid t1, ?tid t2] \<and>
          (distinct [?n, ?tid t1, ?tid t2] \<longrightarrow>
             byId (balances P) =
               [(?n, balance ex_eth), (?tid t1, token_balance t1), (?tid t2, token_balance t2)])"
    using ethereum_record_native_and_tokens [OF c, of sample_toCAIP19 ex_key_ab initialState]
    by (elim exE conjE) (rule that)
  from 2 fresh_n have a: "map_of (byId (balances p')) ?n = Some (balance ex_eth)"
    by (rule mp)
  from 3 i fresh_t have "map_of (byId (balances p')) (?tid (account_tokens ex_eth ! 1)) =
      Some (token_balance (account_tokens ex_eth ! 1))"
    by blast
  then have b: "map_of (byId (balances p')) (?tid ex_token2) = Some (token_balance ex_token2)"
    by (simp add: ts)
  from 5 tk d have e: "byId (balances P) =
      [(?n, balance ex_eth), (?tid ex_token1, token_balance ex_token1),
       (?tid ex_token2, token_balance ex_token2)]"
    by blast
  then have "length (byId (balances P)) = 3" by simp
  with 1 a b 4 e show ?thesis by blast
qed

section \<open>Claims about the selectors\<close>

lemma bnOrZero_bn_fromBaseUnit: "bnOrZero_bn (fromBaseUnit v d) = fromBaseUnit v d"
  by (simp add: bnOrZero_bn_def fromBaseUnit_def bnOrZero_def split: option.splits)

lemma plus_zero_right: "plus_bn acc (Some 0) = acc"
  by (simp add: plus_bn_def split: option.splits)

lemma totalFiat_step_exact:
  "guard_exact as md (fst entry) \<Longrightarrow>
   totalFiat_step as md acc entry = plus_bn acc (fiat_value as md entry)"
  by (auto simp: guard_exact_def totalFiat_step_def fiat_value_def Let_def not_string_def
      not_number_def bnOrZero_bn_fromBaseUnit plus_zero_right split: option.splits)

lemma foldl_totalFiat_exact:
  "\<forall>entry \<in> set entries. guard_exact as md (fst entry) \<Longrightarrow>
   foldl (totalFiat_step as md) acc entries = foldl plus_bn acc (map (fiat_value as md) entries)"
  by (induction entries arbitrary: acc) (simp_all add: totalFiat_step_exact)

lemma selectTotalFiatBalance_exact:
  assumes "\<forall>entry \<in> set (selectPortfolioCryptoBalances state).
             guard_exact (selectAssetsById state) (selectMarketData state) (fst entry)"
  shows "selectTotalFiatBalance state =
           decimalPlaces 2
             (foldl plus_bn (Some 0)
                (map (fiat_value (selectAssetsById state) (selectMarketData state))
                   (selectPortfolioCryptoBalances state)))"
  using assms by (simp add: selectTotalFiatBalance_def foldl_totalFiat_exact)

lemma selectAssetFiatBalance_unknown:
  "map_of (selectAssetsById state) x = None \<or> map_of (selectMarketData state) x = None \<Longrightarrow>
   selectAssetFiatBalance state x = ''0''"
  by (auto simp: selectAssetFiatBalance_def Let_def not_string_def not_number_def)

lemma selectAssetFiatBalance_known:
  assumes "map_of (selectAssetsById state) x = Some a" and "precision a \<noteq> 0"
    and "map_of (selectMarketData state) x = Some m" and "price m \<noteq> []"
  shows "selectAssetFiatBalance state x =
           toFixed 2 (times_bn (fromBaseUnit (map_of (selectPortfolioCryptoBalances state) x)
                               (precision a)) (bn (price m)))"
  using assms
  by (simp add: selectAssetFiatBalance_def Let_def not_string_def not_number_def
      bnOrZero_bn_fromBaseUnit)

lemma selectAssetFiatBalance_falsy_precision:
  "map_of (selectAssetsById state) x = Some a \<Longrightarrow> precision a = 0 \<Longrightarrow>
   selectAssetFiatBalance state x = ''0''"
  by (simp add: selectAssetFiatBalance_def Let_def not_number_def)

lemma selectAssetFiatBalance_example:
  "selectAssetFiatBalance ex_state_btc ''bip122:0/slip44:0'' = ''3.00''"
  by code_simp

lemma selectTotalFiatBalance_example:
  "selectTotalFiatBalance ex_state_btc = Some 3"
  by code_simp

lemma ev_fiat_example:
  "toFixed 2 (times_bn (fromBaseUnit (Some ''150000000'') 8) (bn ''2.00'')) = ''3.00''"
  by code_simp

text \<open>
  C5 fails on the code. The guard \<open>!precision\<close> also holds for the precision \<open>0\<close>, so a
  held asset with precision 0 and a price is left out of the total: with balance 5 and
  price 2.00 the exact rounded sum is 10 and the selector returns 0. Where no held asset
  has precision 0 or an empty price the total is the rounded exact sum
  (\<open>selectTotalFiatBalance_exact\<close>).
\<close>

theorem selectTotalFiatBalance_zero_precision:
  "selectTotalFiatBalance ex_state_zero_precision = Some 0 \<and>
   decimalPlaces 2 (times_bn (fromBaseUnit (Some ''5'') 0) (bn ''2.00'')) = Some 10"
  by code_simp

text \<open>
  C6, as the claim states it, fails: the selector returns the product rounded to two
  decimal places, not the product. One base unit at precision 8 and price 2.00 is worth
  0.00000002 and the selector returns \<open>"0.00"\<close>.
\<close>

theorem selectAssetFiatBalance_rounds:
  "selectAssetFiatBalance ex_state_dust ''bip122:0/slip44:0'' = ''0.00'' \<and>
   times_bn (fromBaseUnit (Some ''1'') 8) (bn ''2.00'') = Some (1 / 50000000) \<and>
   bn ''0.00'' = Some 0"
  by code_simp

text \<open>
  C6, amended. For an asset identifier whose precision is known and not zero and whose
  price is known and not the empty string, \<open>selectAssetFiatBalance\<close> returns the stored
  balance converted from base units multiplied by the price, rounded to two decimal places and
  printed with two fraction digits, so that the returned string reads back as the rounded
  product; it returns \<open>"0"\<close> when the price or the precision is unknown. Balance
  \<open>"150000000"\<close> with precision 8 and price \<open>"2.00"\<close> yields \<open>"3.00"\<close>.
\<close>

theorem selectAssetFiatBalance_rounded_product:
  "(map_of (selectAssetsById state) x = None \<or> map_of (selectMarketData state) x = None \<longrightarrow>
      selectAssetFiatBalance state x = ''0'') \<and>
   (\<forall>a m. map_of (selectAssetsById state) x = Some a \<longrightarrow> precision a \<noteq> 0 \<longrightarrow>
          map_of (selectMarketData state) x = Some m \<longrightarrow> price m \<noteq> [] \<longrightarrow>
      selectAssetFiatBalance state x =
        toFixed 2 (times_bn (fromBaseUnit (map_of (selectPortfolioCryptoBalances state) x)
                            (precision a)) (bn (price m))) \<and>
      bn (selectAssetFiatBalance state x) =
        decimalPlaces 2 (times_bn (fromBaseUnit (map_of (selectPortfolioCryptoBalances state) x)
                                  (precision a)) (bn (price m))) \<and>
      (map_of (selectPortfolioCryptoBalances state) x = Some ''150000000'' \<longrightarrow>
       precision a = 8 \<longrightarrow> price m = ''2.00'' \<longrightarrow>
         selectAssetFiatBalance state x = ''3.00''))"
proof (intro conjI allI impI)
  assume "map_of (selectAssetsById state) x = None \<or> map_of (selectMarketData state) x = None"
  then show "selectAssetFiatBalance state x = ''0''"
    by (rule selectAssetFiatBalance_unknown)
next
  fix a m
  assume h: "map_of (selectAssetsById state) x = Some a" "precision a \<noteq> 0"
    "map_of (selectMarketData state) x = Some m" "price m \<noteq> []"
  show k: "selectAssetFiatBalance state x =
        toFixed 2 (times_bn (fromBaseUnit (map_of (selectPortfolioCryptoBalances state) x)
                            (precision a)) (bn (price m)))"
    using h by (rule selectAssetFiatBalance_known)
  show "bn (selectAssetFiatBalance state x) =
        decimalPlaces 2 (times_bn (fromBaseUnit (map_of (selectPortfolioCryptoBalances state) x)
                                  (precision a)) (bn (price m)))"
    by (simp only: k) (rule bn_toFixed, simp)
  assume "map_of (selectPortfolioCryptoBalances state) x = Some ''150000000''"
    "precision a = 8" "price m = ''2.00''"
  then show "selectAssetFiatBalance state x = ''3.00''"
    by (simp only: k ev_fiat_example)
qed

text \<open>The sample state with one Bitcoin balance, and an identifier the state does not know.\<close>

theorem selectAssetFiatBalance_rounded_product_witness:
  "selectAssetFiatBalance ex_state_btc ex_btc_id = ''3.00'' \<and>
   selectAssetFiatBalance ex_state_btc ex_btc_id =
     toFixed 2 (times_bn (fromBaseUnit (Some ''150000000'') 8) (bn ''2.00'')) \<and>
   selectAssetFiatBalance ex_state_btc ''unknown'' = ''0''"
proof -
  let ?a = "\<lparr>caip19 = ''bip122:0/slip44:0'', precision = 8\<rparr>"
  let ?m = "\<lparr>price = ''2.00''\<rparr>"
  have a: "map_of (selectAssetsById ex_state_btc) ex_btc_id = Some ?a"
    by (simp add: selectAssetsById_def ex_state_btc_def ex_btc_id_def)
  have m: "map_of (selectMarketData ex_state_btc) ex_btc_id = Some ?m"
    by (simp add: selectMarketData_def ex_state_btc_def ex_btc_id_def)
  have b: "map_of (selectPortfolioCryptoBalances ex_state_btc) ex_btc_id = Some ''150000000''"
    by (simp add: selectPortfolioCryptoBalances_def ex_state_btc_def ex_btc_id_def)
  have pa: "precision ?a \<noteq> 0" "precision ?a = 8" by simp_all
  have pm: "price ?m \<noteq> []" "price ?m = ''2.00''" by simp_all
  have u: "map_of (selectAssetsById ex_state_btc) ''unknown'' = None \<or>
           map_of (selectMarketData ex_state_btc) ''unknown'' = None"
    by (simp add: selectAssetsById_def ex_state_btc_def)
  note K = selectAssetFiatBalance_rounded_product [of ex_state_btc ex_btc_id,
      THEN conjunct2, rule_format, OF a pa(1) m pm(1)]
  have 1: "selectAssetFiatBalance ex_state_btc ex_btc_id =
        toFixed 2 (times_bn (fromBaseUnit (map_of (selectPortfolioCryptoBalances ex_state_btc) ex_btc_id)
                            (precision ?a)) (bn (price ?m)))"
    by (rule K [THEN conjunct1])
  have 2: "selectAssetFiatBalance ex_state_btc ex_btc_id = ''3.00''"
    by (rule K [THEN conjunct2, THEN conjunct2, rule_format, OF b pa(2) pm(2)])
  have 3: "selectAssetFiatBalance ex_state_btc ''unknown'' = ''0''"
    by (rule selectAssetFiatBalance_rounded_product [of ex_state_btc "''unknown''",
          THEN conjunct1, rule_format, OF u])
  from 1 have "selectAssetFiatBalance ex_state_btc ex_btc_id =
     toFixed 2 (times_bn (fromBaseUnit (Some ''150000000'') 8) (bn ''2.00''))"
    by (simp only: b pa(2) pm(2))
  with 2 3 show ?thesis by (intro conjI)
qed

text \<open>What the selector returns for a known precision of zero.\<close>

lemma selectAssetFiatBalance_zero_precision:
  "selectAssetFiatBalance ex_state_zero_precision ''eip155:1/erc20:0xaa'' = ''0'' \<and>
   toFixed 2 (times_bn (fromBaseUnit (Some ''5'') 0) (bn ''2.00'')) = ''10.00''"
  by code_simp

section \<open>Claims about the hook\<close>

lemma useFetchAsset_effect_cases:
  "useFetchAsset_effect asset = (case asset of None \<Rightarrow> TypeError | Some a \<Rightarrow> Returned)"
  by (simp add: useFetchAsset_effect_def split: option.splits)

lemma useFetchAsset_effect_never_dispatches: "useFetchAsset_effect asset \<noteq> Dispatched x"
  by (simp add: useFetchAsset_effect_cases split: option.splits)

text \<open>
  C2 fails on the code. The effect returns early exactly when the asset is present, so the
  statement after the guard runs only with \<open>asset\<close> undefined, and its argument
  \<open>asset.caip19\<close> reads a property of \<open>undefined\<close>: on a store without the selected
  asset the effect throws a \<open>TypeError\<close> and dispatches nothing.
\<close>

theorem useFetchAsset_effect_throws_on_empty_store:
  "selected_asset [] Ethereum None = None \<and>
   useFetchAsset_effect (selected_asset [] Ethereum None) = TypeError"
  by (simp add: selected_asset_def useFetchAsset_effect_def)

section \<open>Claims about the orchestrator\<close>

lemma update_fresh: "k \<notin> fst ` set al \<Longrightarrow> AList.update k v al = al @ [(k, v)]"
  by (induction al) auto

lemma set_all_fresh:
  "distinct (map fst kvs) \<Longrightarrow> fst ` set kvs \<inter> fst ` set ob = {} \<Longrightarrow>
   set_all kvs ob = ob @ kvs"
proof (induction kvs arbitrary: ob)
  case Nil
  show ?case by (simp add: set_all_Nil)
next
  case (Cons kv kvs)
  from Cons.prems have k: "fst kv \<notin> fst ` set ob" by auto
  have "set_all (kv # kvs) ob = set_all kvs (ob @ [kv])"
    by (simp add: set_all_def update_fresh [OF k])
  also have "\<dots> = (ob @ [kv]) @ kvs"
    using Cons.prems by (intro Cons.IH) auto
  finally show ?case by simp
qed

lemma settle_Rejected: "settle co st (Rejected reason) = (fst st @ [log_line reason], snd st)"
  by (simp add: settle_def)

lemma settle_Fulfilled:
  "settle co st (Fulfilled v) = (fst st, AList.update (account_CAIP10 co v) v (snd st))"
  by (simp add: settle_def)

lemma foldl_settle:
  "foldl (settle co) st rs =
     (fst st @ map log_line (rejected rs),
      set_all (map (\<lambda>v. (account_CAIP10 co v, v)) (fulfilled rs)) (snd st))"
proof (induction rs arbitrary: st)
  case Nil
  show ?case by (simp add: set_all_Nil)
next
  case (Cons r rs)
  show ?case
    by (cases r) (simp_all add: Cons.IH settle_Rejected settle_Fulfilled set_all_def)
qed

lemma Fulfilled_in_set: "Fulfilled v \<in> set rs \<longleftrightarrow> v \<in> set (fulfilled rs)"
  by (induction rs rule: fulfilled.induct) auto

lemma map_of_set_all_in:
  "k \<in> fst ` set kvs \<Longrightarrow> \<exists>v. map_of (set_all kvs ob) k = Some v \<and> (k, v) \<in> set kvs"
proof (induction kvs arbitrary: ob rule: rev_induct)
  case Nil
  then show ?case by simp
next
  case (snoc kv kvs)
  show ?case
  proof (cases "k = fst kv")
    case True
    then have "map_of (set_all (kvs @ [kv]) ob) k = Some (snd kv)"
      by (simp add: set_all_append) (simp add: set_all_def AList.update_conv')
    with True show ?thesis by auto
  next
    case False
    with snoc.prems have "k \<in> fst ` set kvs" by auto
    from snoc.IH [OF this, of ob] obtain v where
      "map_of (set_all kvs ob) k = Some v" "(k, v) \<in> set kvs" by blast
    with False show ?thesis
      by (simp add: set_all_append) (simp add: set_all_def AList.update_conv')
  qed
qed

lemma length_rejected_fulfilled: "length (rejected rs) + length (fulfilled rs) = length rs"
  by (induction rs rule: fulfilled.induct) simp_all

lemma ev_promises:
  "promises ex_collaborators ex_pubkeys = [Fulfilled ex_eth, Rejected ''timeout'']"
  by code_simp

lemma ev_CAIP10: "account_CAIP10 ex_collaborators ex_eth = ex_key_ab"
  by code_simp

lemma queryFn_empty: "queryFn co [] = ([], Data [])"
  by (simp add: queryFn_def)

text \<open>
  C9. For every non-empty map of pubkeys the query function makes one request per entry,
  each with its own outcome, and handles every settled result: the number of logged
  rejections and the number of fulfilled results add up to the number of entries. It returns
  data and never an error. The console gets one line per rejected request, in order, and
  a rejected request contributes nothing to the data. The keys of the data are the
  composite account identifiers of the fulfilled results, each mapped to a fulfilled
  result with that identifier; when the identifiers are pairwise different the data has
  exactly one entry per fulfilled result, in order.
\<close>

theorem queryFn_settles_all_and_omits_failures:
  assumes "pubkeys \<noteq> []"
  shows "length (promises co pubkeys) = length pubkeys \<and>
         (\<forall>i < length pubkeys. promises co pubkeys ! i = request co (pubkeys ! i)) \<and>
         length (rejected (promises co pubkeys)) + length (fulfilled (promises co pubkeys)) =
           length pubkeys \<and>
         (\<exists>data. queryFn co pubkeys =
                   (map log_line (rejected (promises co pubkeys)), Data data) \<and>
            fst ` set data = account_CAIP10 co ` set (fulfilled (promises co pubkeys)) \<and>
            distinct (map fst data) \<and>
            (\<forall>v \<in> set (fulfilled (promises co pubkeys)).
               \<exists>v' \<in> set (fulfilled (promises co pubkeys)).
                 map_of data (account_CAIP10 co v) = Some v' \<and>
                 account_CAIP10 co v' = account_CAIP10 co v) \<and>
            (distinct (map (account_CAIP10 co) (fulfilled (promises co pubkeys))) \<longrightarrow>
               data = map (\<lambda>v. (account_CAIP10 co v, v)) (fulfilled (promises co pubkeys))))"
proof -
  let ?ps = "promises co pubkeys"
  let ?kvs = "map (\<lambda>v. (account_CAIP10 co v, v)) (fulfilled ?ps)"
  let ?data = "set_all ?kvs []"
  have len: "length ?ps = length pubkeys"
    by (simp add: promises_def)
  have nth: "?ps ! i = request co (pubkeys ! i)" if "i < length pubkeys" for i
    using that by (simp add: promises_def)
  have cnt: "length (rejected ?ps) + length (fulfilled ?ps) = length pubkeys"
    by (simp only: length_rejected_fulfilled len)
  have q: "queryFn co pubkeys = (map log_line (rejected ?ps), Data ?data)"
    using assms by (simp add: queryFn_def Let_def foldl_settle)
  have fk: "fst ` set ?kvs = account_CAIP10 co ` set (fulfilled ?ps)"
    by (simp add: image_image)
  have keys: "fst ` set ?data = account_CAIP10 co ` set (fulfilled ?ps)"
    by (simp only: keys_set_all fk) simp
  have dist: "distinct (map fst ?data)"
    using distinct_set_all [of "[]" ?kvs] by simp
  have look: "\<exists>v' \<in> set (fulfilled ?ps).
                map_of ?data (account_CAIP10 co v) = Some v' \<and>
                account_CAIP10 co v' = account_CAIP10 co v"
    if "v \<in> set (fulfilled ?ps)" for v
  proof -
    from that have "account_CAIP10 co v \<in> fst ` set ?kvs"
      by (simp only: fk) (rule imageI)
    from map_of_set_all_in [OF this, of "[]"] obtain v' where
      "map_of ?data (account_CAIP10 co v) = Some v'" and "(account_CAIP10 co v, v') \<in> set ?kvs"
      by blast
    then show ?thesis by auto
  qed
  have exact: "?data = ?kvs" if "distinct (map (account_CAIP10 co) (fulfilled ?ps))"
  proof -
    from that have "distinct (map fst ?kvs)" by (simp add: comp_def)
    then have "set_all ?kvs [] = [] @ ?kvs" by (rule set_all_fresh) simp
    then show ?thesis by simp
  qed
  show ?thesis
  proof (intro conjI allI impI exI ballI)
    show "length ?ps = length pubkeys" by (rule len)
    show "?ps ! i = request co (pubkeys ! i)" if "i < length pubkeys" for i
      using that by (rule nth)
    show "length (rejected ?ps) + length (fulfilled ?ps) = length pubkeys" by (rule cnt)
    show "queryFn co pubkeys = (map log_line (rejected ?ps), Data ?data)" by (rule q)
    show "fst ` set ?data = account_CAIP10 co ` set (fulfilled ?ps)" by (rule keys)
    show "distinct (map fst ?data)" by (rule dist)
    show "\<exists>v' \<in> set (fulfilled ?ps).
            map_of ?data (account_CAIP10 co v) = Some v' \<and>
            account_CAIP10 co v' = account_CAIP10 co v"
      if "v \<in> set (fulfilled ?ps)" for v
      using that by (rule look)
    show "?data = ?kvs" if "distinct (map (account_CAIP10 co) (fulfilled ?ps))"
      using that by (rule exact)
  qed
qed

text \<open>Two pubkeys, of which the Ethereum request is fulfilled and the Bitcoin request fails.\<close>

theorem queryFn_settles_all_and_omits_failures_witness:
  "length (promises ex_collaborators ex_pubkeys) = 2 \<and>
   queryFn ex_collaborators ex_pubkeys = ([log_line ''timeout''], Data [(ex_key_ab, ex_eth)])"
proof -
  have ne: "ex_pubkeys \<noteq> []"
    by (simp add: ex_pubkeys_def)
  have l: "length ex_pubkeys = 2"
    by (simp add: ex_pubkeys_def)
  have f: "fulfilled (promises ex_collaborators ex_pubkeys) = [ex_eth]"
    and r: "rejected (promises ex_collaborators ex_pubkeys) = [''timeout'']"
    by (simp_all add: ev_promises)
  note T = queryFn_settles_all_and_omits_failures [OF ne, of ex_collaborators]
  have 1: "length (promises ex_collaborators ex_pubkeys) = 2"
    using T [THEN conjunct1] by (simp only: l)
  obtain data where
    q: "queryFn ex_collaborators ex_pubkeys =
          (map log_line (rejected (promises ex_collaborators ex_pubkeys)), Data data)" and
    d: "distinct (map (account_CAIP10 ex_collaborators) (fulfilled (promises ex_collaborators ex_pubkeys))) \<longrightarrow>
          data = map (\<lambda>v. (account_CAIP10 ex_collaborators v, v))
                   (fulfilled (promises ex_collaborators ex_pubkeys))"
    using T [THEN conjunct2, THEN conjunct2, THEN conjunct2]
    by (elim exE conjE) (rule that)
  have "distinct (map (account_CAIP10 ex_collaborators) (fulfilled (promises ex_collaborators ex_pubkeys)))"
    by (simp add: f)
  with d have "data = map (\<lambda>v. (account_CAIP10 ex_collaborators v, v))
                   (fulfilled (promises ex_collaborators ex_pubkeys))"
    by (rule mp)
  then have "data = [(ex_key_ab, ex_eth)]"
    by (simp add: f ev_CAIP10)
  with q 1 show ?thesis
    by (simp add: r)
qed

section \<open>Claim about purity\<close>

lemma ev_module: "read_portfolio (fst module_heap) (snd module_heap) = Some initialState"
  by code_simp

lemma ev_run:
  "map_option (\<lambda>hr. read_portfolio (fst hr) (snd hr))
     (h_accountsToPortfolio sample_toCAIP19 [(ex_key_ab, ex_eth), (ex_key_btc, ex_btc)]
        (snd module_heap) (fst module_heap)) =
   Some (accountsToPortfolio sample_toCAIP19 [(ex_key_ab, ex_eth), (ex_key_btc, ex_btc)])"
  by code_simp

lemma layout_paths:
  assumes "layout n h"
  shows "get_path h (n + 6) ''accounts'' ''byId'' = Some n"
    and "get_path h (n + 6) ''accounts'' ''ids'' = Some (Suc n)"
    and "get_path h (n + 6) ''balances'' ''byId'' = Some (n + 3)"
    and "get_path h (n + 6) ''balances'' ''ids'' = Some (n + 4)"
  using assms by (simp_all add: layout_def get_path_def get_field_def)

lemma layout_write:
  "layout n h \<Longrightarrow> a \<noteq> n + 2 \<Longrightarrow> a \<noteq> n + 5 \<Longrightarrow> a \<noteq> n + 6 \<Longrightarrow> layout n (h_write a c h)"
  by (simp add: layout_def h_write_def)

lemma layout_alloc: "layout n h \<Longrightarrow> layout n (fst (h_alloc c h))"
  by (simp add: layout_def h_alloc_def)

lemma heap_closed_write: "heap_closed h \<Longrightarrow> a < next_free h \<Longrightarrow> heap_closed (h_write a c h)"
  by (simp add: heap_closed_def h_write_def)

lemma heap_closed_alloc: "heap_closed h \<Longrightarrow> heap_closed (fst (h_alloc c h))"
  by (auto simp: heap_closed_def h_alloc_def less_Suc_eq)

lemma holds_write: "holds h e p \<Longrightarrow> snd e \<noteq> a \<Longrightarrow> holds (h_write a c h) e p"
  by (simp add: holds_def h_write_def)

lemma list_all2_holds_write:
  "list_all2 (holds h) es ps \<Longrightarrow> a \<notin> snd ` set es \<Longrightarrow> list_all2 (holds (h_write a c h)) es ps"
  by (induction rule: list_all2_induct) (auto intro: holds_write)

lemma entry_cells_write:
  "entry_cells n h es ps \<Longrightarrow> a \<notin> snd ` set es \<Longrightarrow> entry_cells n (h_write a c h) es ps"
  by (simp add: entry_cells_def list_all2_holds_write) (simp add: h_write_def)

lemma entry_cells_low: "entry_cells n h es ps \<Longrightarrow> a < n + 7 \<Longrightarrow> a \<notin> snd ` set es"
  by (auto simp: entry_cells_def)

lemma read_entries_holds: "list_all2 (holds h) es ps \<Longrightarrow> read_entries h es = Some ps"
  by (induction rule: list_all2_induct) (auto simp: holds_def read_Arr_def)

lemma Inv_read:
  assumes "Inv n h P es"
  shows "read_portfolio h (n + 6) = Some P"
proof -
  from assms have l: "layout n h" and c: "cells h n = Some (RefObj es)"
    "cells h (Suc n) = Some (Arr (ids (accounts P)))"
    "cells h (n + 3) = Some (StrObj (byId (balances P)))"
    "cells h (n + 4) = Some (Arr (ids (balances P)))"
    and e: "list_all2 (holds h) es (byId (accounts P))"
    by (simp_all add: Inv_def entry_cells_def)
  have r: "read_entries h es = Some (byId (accounts P))"
    using e by (rule read_entries_holds)
  show ?thesis
    by (simp add: read_portfolio_def layout_paths [OF l] read_RefObj_def read_Arr_def
        read_StrObj_def c r)
qed

lemma frame_refl: "frame n h h"
  by (simp add: frame_def)

lemma frame_trans: "frame n h0 h \<Longrightarrow> frame n h h' \<Longrightarrow> frame n h0 h'"
  by (simp add: frame_def)

lemma frame_write: "n \<le> a \<Longrightarrow> frame n h (h_write a c h)"
  by (simp add: frame_def h_write_def)

lemma frame_alloc: "n \<le> next_free h \<Longrightarrow> frame n h (fst (h_alloc c h))"
  by (simp add: frame_def h_alloc_def)

lemma Inv_slots:
  assumes "Inv n h P es"
  shows "layout n h" and "heap_closed h" and "cells h n = Some (RefObj es)"
    and "entry_cells n h es (byId (accounts P))"
    and "cells h (Suc n) = Some (Arr (ids (accounts P)))"
    and "cells h (n + 3) = Some (StrObj (byId (balances P)))"
    and "cells h (n + 4) = Some (Arr (ids (balances P)))"
    and "n + 7 \<le> next_free h"
  using assms by (simp_all add: Inv_def layout_def)

lemma Inv_write_slot:
  assumes inv: "Inv n h P es"
    and a: "a = Suc n \<or> a = n + 3 \<or> a = n + 4"
    and P': "byId (accounts P') = byId (accounts P)"
    and s1: "(if a = Suc n then c else Arr (ids (accounts P))) = Arr (ids (accounts P'))"
    and s3: "(if a = n + 3 then c else StrObj (byId (balances P))) = StrObj (byId (balances P'))"
    and s4: "(if a = n + 4 then c else Arr (ids (balances P))) = Arr (ids (balances P'))"
  shows "Inv n (h_write a c h) P' es"
proof -
  note I = Inv_slots [OF inv]
  from a have low: "a < n + 7" and nn: "a \<noteq> n" "a \<noteq> n + 2" "a \<noteq> n + 5" "a \<noteq> n + 6"
    by auto
  have l: "layout n (h_write a c h)"
    using I(1) nn by (simp add: layout_write)
  have c: "heap_closed (h_write a c h)"
    using I(2) low I(8) by (simp add: heap_closed_write)
  have e: "entry_cells n (h_write a c h) es (byId (accounts P'))"
    unfolding P' using I(4) entry_cells_low [OF I(4) low] by (rule entry_cells_write)
  have 0: "cells (h_write a c h) n = Some (RefObj es)"
    using nn I(3) by (simp add: h_write_def)
  have 1: "cells (h_write a c h) (Suc n) = Some (Arr (ids (accounts P')))"
    using s1 I(5) by (auto simp: h_write_def split: if_splits)
  have 3: "cells (h_write a c h) (n + 3) = Some (StrObj (byId (balances P')))"
    using s3 I(6) by (auto simp: h_write_def split: if_splits)
  have 4: "cells (h_write a c h) (n + 4) = Some (Arr (ids (balances P')))"
    using s4 I(7) by (auto simp: h_write_def split: if_splits)
  show ?thesis
    unfolding Inv_def using l c e 0 1 3 4 by simp
qed

lemma sim_accounts_ids_push:
  assumes "Sim n h0 h P"
  shows "\<exists>h'. h_accounts_ids_push k (n + 6) h = Some h' \<and> Sim n h0 h' (accounts_ids_push k P)"
proof -
  from assms obtain es where inv: "Inv n h P es" and fr: "frame n h0 h"
    by (auto simp: Sim_def)
  note I = Inv_slots [OF inv]
  let ?h' = "h_write (Suc n) (Arr (ids (accounts P) @ [k])) h"
  have "h_accounts_ids_push k (n + 6) h = Some ?h'"
    by (simp add: h_accounts_ids_push_def layout_paths [OF I(1)] read_Arr_def I(5))
  moreover have "Inv n ?h' (accounts_ids_push k P) es"
    using inv by (rule Inv_write_slot) (simp_all add: accounts_ids_push_def)
  moreover have "frame n h0 ?h'"
    using fr by (rule frame_trans) (simp add: frame_write)
  ultimately show ?thesis by (auto simp: Sim_def)
qed

lemma sim_balances_ids_push:
  assumes "Sim n h0 h P"
  shows "\<exists>h'. h_balances_ids_push x (n + 6) h = Some h' \<and> Sim n h0 h' (balances_ids_push x P)"
proof -
  from assms obtain es where inv: "Inv n h P es" and fr: "frame n h0 h"
    by (auto simp: Sim_def)
  note I = Inv_slots [OF inv]
  let ?h' = "h_write (n + 4) (Arr (ids (balances P) @ [x])) h"
  have "h_balances_ids_push x (n + 6) h = Some ?h'"
    by (simp add: h_balances_ids_push_def layout_paths [OF I(1)] read_Arr_def I(7))
  moreover have "Inv n ?h' (balances_ids_push x P) es"
    using inv by (rule Inv_write_slot) (simp_all add: balances_ids_push_def)
  moreover have "frame n h0 ?h'"
    using fr by (rule frame_trans) (simp add: frame_write)
  ultimately show ?thesis by (auto simp: Sim_def)
qed

lemma sim_balances_byId_set:
  assumes "Sim n h0 h P"
  shows "\<exists>h'. h_balances_byId_set x b (n + 6) h = Some h' \<and> Sim n h0 h' (balances_byId_set x b P)"
proof -
  from assms obtain es where inv: "Inv n h P es" and fr: "frame n h0 h"
    by (auto simp: Sim_def)
  note I = Inv_slots [OF inv]
  let ?h' = "h_write (n + 3) (StrObj (AList.update x b (byId (balances P)))) h"
  have "h_balances_byId_set x b (n + 6) h = Some ?h'"
    by (simp add: h_balances_byId_set_def layout_paths [OF I(1)] read_StrObj_def I(6))
  moreover have "Inv n ?h' (balances_byId_set x b P) es"
    using inv by (rule Inv_write_slot) (simp_all add: balances_byId_set_def)
  moreover have "frame n h0 ?h'"
    using fr by (rule frame_trans) (simp add: frame_write)
  ultimately show ?thesis by (auto simp: Sim_def)
qed

lemma holds_alloc: "holds h e p \<Longrightarrow> snd e \<noteq> next_free h \<Longrightarrow> holds (fst (h_alloc c h)) e p"
  by (simp add: holds_def h_alloc_def)

lemma list_all2_holds_alloc:
  "list_all2 (holds h) es ps \<Longrightarrow> next_free h \<notin> snd ` set es \<Longrightarrow>
   list_all2 (holds (fst (h_alloc c h))) es ps"
  by (induction rule: list_all2_induct) (auto intro: holds_alloc)

lemma list_all2_holds_update:
  "list_all2 (holds h) es ps \<Longrightarrow> holds h (k, a) (k, v) \<Longrightarrow>
   list_all2 (holds h) (AList.update k a es) (AList.update k v ps)"
proof (induction rule: list_all2_induct)
  case Nil
  then show ?case by simp
next
  case (Cons e es p ps)
  from Cons.hyps(1) have key: "fst e = fst p" by (simp add: holds_def)
  show ?case
  proof (cases "fst p = k")
    case True
    with key Cons.hyps(2) Cons.prems show ?thesis
      by (cases e, cases p) simp
  next
    case False
    with key Cons.hyps(1) Cons.IH [OF Cons.prems] show ?thesis
      by (cases e, cases p) simp
  qed
qed

lemma distinct_snd_update:
  "distinct (map snd es) \<Longrightarrow> a \<notin> snd ` set es \<Longrightarrow> distinct (map snd (AList.update k a es))"
proof (induction es)
  case Nil
  show ?case by simp
next
  case (Cons e es)
  have sub: "snd ` set (AList.update k a es) \<subseteq> insert a (snd ` set es)"
    by (auto dest: set_update_cases)
  from Cons show ?case
    using sub by (auto simp: image_def)
qed

lemma sim_accounts_byId_set_empty:
  assumes "Sim n h0 h P"
  shows "\<exists>h'. h_accounts_byId_set_empty k (n + 6) h = Some h' \<and>
              Sim n h0 h' (accounts_byId_set k [] P)"
proof -
  from assms obtain es where inv: "Inv n h P es" and fr: "frame n h0 h"
    by (auto simp: Sim_def)
  note I = Inv_slots [OF inv]
  let ?a = "next_free h"
  let ?h1 = "fst (h_alloc (Arr []) h)"
  let ?es' = "AList.update k ?a es"
  let ?h' = "h_write n (RefObj ?es') ?h1"
  let ?P' = "accounts_byId_set k [] P"
  from I(4) have all2: "list_all2 (holds h) es (byId (accounts P))"
    and bounds: "\<forall>e \<in> set es. n + 7 \<le> snd e \<and> snd e < next_free h"
    and dist: "distinct (map snd es)"
    by (simp_all add: entry_cells_def)
  from bounds have fresh: "?a \<notin> snd ` set es" and notn: "n \<notin> snd ` set es"
    by auto
  have run: "h_accounts_byId_set_empty k (n + 6) h = Some ?h'"
    by (simp add: h_accounts_byId_set_empty_def layout_paths [OF I(1)] read_RefObj_def I(3)
        Let_def h_alloc_def)
  have nf: "next_free ?h' = Suc ?a"
    by (simp add: h_write_def h_alloc_def)
  have cell: "cells ?h' b = (if b = n then Some (RefObj ?es')
                            else if b = ?a then Some (Arr []) else cells h b)" for b
    by (simp add: h_write_def h_alloc_def)
  have old: "list_all2 (holds ?h') es (byId (accounts P))"
    using all2 fresh notn by (intro list_all2_holds_write list_all2_holds_alloc)
  have new: "holds ?h' (k, ?a) (k, [])"
    using I(8) by (simp add: holds_def cell)
  have e: "entry_cells n ?h' ?es' (byId (accounts ?P'))"
    unfolding entry_cells_def
  proof (intro conjI ballI)
    show "list_all2 (holds ?h') ?es' (byId (accounts ?P'))"
      using list_all2_holds_update [OF old new] by (simp add: accounts_byId_set_def)
    show "distinct (map snd ?es')"
      using dist fresh by (rule distinct_snd_update)
    fix e assume "e \<in> set ?es'"
    then have "e = (k, ?a) \<or> e \<in> set es"
      using set_update_cases [of "fst e" "snd e" k ?a es] by simp
    then show "n + 7 \<le> snd e" and "snd e < next_free ?h'"
      using bounds I(8) by (auto simp: nf less_Suc_eq)
  qed
  have l: "layout n ?h'"
    using I(1) by (intro layout_write layout_alloc) simp_all
  have c: "heap_closed ?h'"
    using I(2) I(8) by (intro heap_closed_write heap_closed_alloc) (simp_all add: h_alloc_def)
  have slots: "cells ?h' n = Some (RefObj ?es')"
    "cells ?h' (Suc n) = Some (Arr (ids (accounts ?P')))"
    "cells ?h' (n + 3) = Some (StrObj (byId (balances ?P')))"
    "cells ?h' (n + 4) = Some (Arr (ids (balances ?P')))"
    using I(5-8) by (simp_all add: cell accounts_byId_set_def)
  have "Inv n ?h' ?P' ?es'"
    unfolding Inv_def using l c e slots by simp
  moreover have "frame n h0 ?h'"
  proof (rule frame_trans [OF fr])
    show "frame n h ?h'"
      using I(8) by (simp add: frame_def cell nf)
  qed
  ultimately show ?thesis
    using run by (auto simp: Sim_def)
qed

lemma holds_lookup:
  "list_all2 (holds h) es ps \<Longrightarrow> map_of ps k = Some xs \<Longrightarrow>
   \<exists>a. map_of es k = Some a \<and> cells h a = Some (Arr xs)"
  by (induction rule: list_all2_induct) (auto simp: holds_def split: if_splits)

lemma list_all2_holds_push:
  "list_all2 (holds h) es ps \<Longrightarrow> distinct (map snd es) \<Longrightarrow> map_of es k = Some a \<Longrightarrow>
   list_all2 (holds (h_write a (Arr ys) h)) es (AList.update k ys ps)"
proof (induction rule: list_all2_induct)
  case Nil
  then show ?case by simp
next
  case (Cons e es p ps)
  from Cons.hyps(1) have key: "fst e = fst p" by (simp add: holds_def)
  from Cons.prems(1) have notin: "snd e \<notin> snd ` set es" and d: "distinct (map snd es)"
    by auto
  show ?case
  proof (cases "fst p = k")
    case True
    with key Cons.prems(2) have a: "a = snd e" by (cases e) auto
    have "holds (h_write a (Arr ys) h) e (k, ys)"
      using key True by (simp add: holds_def h_write_def a)
    moreover have "list_all2 (holds (h_write a (Arr ys) h)) es ps"
      using Cons.hyps(2) notin unfolding a by (rule list_all2_holds_write)
    ultimately show ?thesis
      using True by (cases p) simp
  next
    case False
    with key Cons.prems(2) have look: "map_of es k = Some a" by (cases e) auto
    then have "(k, a) \<in> set es" by (rule map_of_SomeD)
    then have "a \<in> snd ` set es" by force
    with notin have ne: "snd e \<noteq> a" by auto
    have "holds (h_write a (Arr ys) h) e p"
      using Cons.hyps(1) ne by (rule holds_write)
    moreover have "list_all2 (holds (h_write a (Arr ys) h)) es (AList.update k ys ps)"
      using d look by (rule Cons.IH)
    ultimately show ?thesis
      using False by (cases p) simp
  qed
qed

lemma sim_accounts_byId_push:
  assumes "Sim n h0 h P" and look: "map_of (byId (accounts P)) k = Some xs"
  shows "\<exists>h'. h_accounts_byId_push k x (n + 6) h = Some h' \<and>
              Sim n h0 h' (accounts_byId_set k (xs @ [x]) P)"
proof -
  from assms obtain es where inv: "Inv n h P es" and fr: "frame n h0 h"
    by (auto simp: Sim_def)
  note I = Inv_slots [OF inv]
  from I(4) have all2: "list_all2 (holds h) es (byId (accounts P))"
    and bounds: "\<forall>e \<in> set es. n + 7 \<le> snd e \<and> snd e < next_free h"
    and dist: "distinct (map snd es)"
    by (simp_all add: entry_cells_def)
  from holds_lookup [OF all2 look] obtain a where
    a: "map_of es k = Some a" and ca: "cells h a = Some (Arr xs)" by blast
  from a have "(k, a) \<in> set es" by (rule map_of_SomeD)
  with bounds have lo: "n + 7 \<le> a" and hi: "a < next_free h" by auto
  let ?h' = "h_write a (Arr (xs @ [x])) h"
  let ?P' = "accounts_byId_set k (xs @ [x]) P"
  have run: "h_accounts_byId_push k x (n + 6) h = Some ?h'"
    by (simp add: h_accounts_byId_push_def layout_paths [OF I(1)] read_RefObj_def I(3) a
        read_Arr_def ca)
  have e: "entry_cells n ?h' es (byId (accounts ?P'))"
    unfolding entry_cells_def
    using list_all2_holds_push [OF all2 dist a, of "xs @ [x]"] bounds dist
    by (simp add: accounts_byId_set_def) (simp add: h_write_def)
  have l: "layout n ?h'"
    using I(1) lo by (intro layout_write) simp_all
  have c: "heap_closed ?h'"
    using I(2) hi by (rule heap_closed_write)
  have slots: "cells ?h' n = Some (RefObj es)"
    "cells ?h' (Suc n) = Some (Arr (ids (accounts ?P')))"
    "cells ?h' (n + 3) = Some (StrObj (byId (balances ?P')))"
    "cells ?h' (n + 4) = Some (Arr (ids (balances ?P')))"
    using I(3,5-7) lo by (simp_all add: h_write_def accounts_byId_set_def)
  have "Inv n ?h' ?P' es"
    unfolding Inv_def using l c e slots by simp
  moreover have "frame n h0 ?h'"
    using fr lo by (intro frame_trans [OF fr] frame_write) simp
  ultimately show ?thesis
    using run by (auto simp: Sim_def)
qed

lemma then_do_Some: "then_do (Some s) f = f s"
  by (simp add: then_do_def)

lemma sim_token_body:
  assumes sim: "Sim n h0 h P" and look: "map_of (byId (accounts P)) k \<noteq> None"
  shows "\<exists>h' P'. h_token_body f c nw k (n + 6) t h = Some h' \<and>
                 token_body f c nw k t P = Some P' \<and> Sim n h0 h' P' \<and>
                 map_of (byId (accounts P')) k \<noteq> None"
proof -
  let ?x = "tokenCAIP19 f c nw t"
  from look obtain xs where xs: "map_of (byId (accounts P)) k = Some xs" by auto
  let ?P1 = "accounts_byId_set k (xs @ [?x]) P"
  let ?P2 = "balances_ids_push ?x ?P1"
  let ?P3 = "balances_byId_set ?x (token_balance t) ?P2"
  from sim_accounts_byId_push [OF sim xs, of ?x] obtain h1 where
    1: "h_accounts_byId_push k ?x (n + 6) h = Some h1" and s1: "Sim n h0 h1 ?P1" by blast
  from sim_balances_ids_push [OF s1, of ?x] obtain h2 where
    2: "h_balances_ids_push ?x (n + 6) h1 = Some h2" and s2: "Sim n h0 h2 ?P2" by blast
  from sim_balances_byId_set [OF s2, of ?x "token_balance t"] obtain h3 where
    3: "h_balances_byId_set ?x (token_balance t) (n + 6) h2 = Some h3" and s3: "Sim n h0 h3 ?P3"
    by blast
  have hb: "h_token_body f c nw k (n + 6) t h = Some h3"
    by (simp add: h_token_body_def Let_def 1 2 3 then_do_Some)
  have pb: "token_body f c nw k t P = Some ?P3"
    by (simp add: token_body_def Let_def accounts_byId_push_def xs)
  have keep: "map_of (byId (accounts ?P3)) k \<noteq> None"
    by (simp add: balances_byId_set_def balances_ids_push_def accounts_byId_set_def
        AList.update_conv')
  from hb pb s3 keep show ?thesis by blast
qed

lemma forEach_sim:
  assumes step: "\<And>x h P. Sim n h0 h P \<Longrightarrow> Q P \<Longrightarrow>
                   \<exists>h' P'. fh x h = Some h' \<and> fp x P = Some P' \<and> Sim n h0 h' P' \<and> Q P'"
  shows "Sim n h0 h P \<Longrightarrow> Q P \<Longrightarrow>
         \<exists>h' P'. forEach fh xs h = Some h' \<and> forEach fp xs P = Some P' \<and> Sim n h0 h' P' \<and> Q P'"
proof (induction xs arbitrary: h P)
  case Nil
  then show ?case by simp
next
  case (Cons x xs)
  from step [OF Cons.prems, of x] obtain h1 P1 where
    1: "fh x h = Some h1" "fp x P = Some P1" and s: "Sim n h0 h1 P1" "Q P1" by blast
  from Cons.IH [OF s] obtain h' P' where
    "forEach fh xs h1 = Some h'" "forEach fp xs P1 = Some P'" "Sim n h0 h' P'" "Q P'" by blast
  with 1 show ?case by simp
qed

lemma sim_account_body:
  assumes sim: "Sim n h0 h P"
  shows "\<exists>h' P'. h_account_body f (n + 6) e h = Some h' \<and> account_body f e P = Some P' \<and>
                 Sim n h0 h' P'"
proof -
  let ?k = "fst e" and ?a = "snd e"
  let ?c = "chain (snd e)" and ?nw = "network (snd e)"
  let ?P0 = "accounts_byId_set ?k [] P"
  let ?P1 = "accounts_ids_push ?k ?P0"
  from sim_accounts_byId_set_empty [OF sim, of ?k] obtain g0 where
    0: "h_accounts_byId_set_empty ?k (n + 6) h = Some g0" and s0: "Sim n h0 g0 ?P0" by blast
  from sim_accounts_ids_push [OF s0, of ?k] obtain g1 where
    1: "h_accounts_ids_push ?k (n + 6) g0 = Some g1" and s1: "Sim n h0 g1 ?P1" by blast
  have start: "then_do (h_accounts_byId_set_empty ?k (n + 6) h) (h_accounts_ids_push ?k (n + 6)) =
                 Some g1"
    by (simp add: 0 1 then_do_Some)
  have look1: "map_of (byId (accounts ?P1)) ?k = Some []"
    by (simp add: accounts_ids_push_def accounts_byId_set_def AList.update_conv')
  let ?x = "f ?c ?nw None None"
  let ?P2 = "accounts_byId_set ?k ([] @ [?x]) ?P1"
  from sim_accounts_byId_push [OF s1 look1, of ?x] obtain g2 where
    2: "h_accounts_byId_push ?k ?x (n + 6) g1 = Some g2" and s2: "Sim n h0 g2 ?P2" by blast
  have push: "accounts_byId_push ?k ?x ?P1 = Some ?P2"
    by (simp add: accounts_byId_push_def look1)
  have look2: "map_of (byId (accounts ?P2)) ?k \<noteq> None"
    by (simp add: accounts_byId_set_def AList.update_conv')
  show ?thesis
  proof (cases ?c)
    case Ethereum
    let ?P3 = "balances_ids_push ?x ?P2"
    let ?P4 = "balances_byId_set ?x (balance ?a) ?P3"
    from sim_balances_ids_push [OF s2, of ?x] obtain g3 where
      3: "h_balances_ids_push ?x (n + 6) g2 = Some g3" and s3: "Sim n h0 g3 ?P3" by blast
    from sim_balances_byId_set [OF s3, of ?x "balance ?a"] obtain g4 where
      4: "h_balances_byId_set ?x (balance ?a) (n + 6) g3 = Some g4" and s4: "Sim n h0 g4 ?P4"
      by blast
    have look4: "map_of (byId (accounts ?P4)) ?k \<noteq> None"
      using look2 by (simp add: balances_byId_set_def balances_ids_push_def)
    show ?thesis
    proof (cases "tokens (chainSpecific ?a)")
      case None
      have "h_account_body f (n + 6) e h = Some g4"
        using Ethereum None start 2 3 4 by (simp add: h_account_body_def Let_def then_do_Some)
      moreover have "account_body f e P = Some ?P4"
        using Ethereum None push by (simp add: account_body_def Let_def)
      ultimately show ?thesis using s4 by blast
    next
      case (Some ts)
      from forEach_sim [where fh = "h_token_body f ?c ?nw ?k (n + 6)"
          and fp = "token_body f ?c ?nw ?k" and Q = "\<lambda>P. map_of (byId (accounts P)) ?k \<noteq> None"
          and xs = ts, OF sim_token_body s4 look4]
      obtain h' P' where
        t: "forEach (h_token_body f ?c ?nw ?k (n + 6)) ts g4 = Some h'"
           "forEach (token_body f ?c ?nw ?k) ts ?P4 = Some P'" "Sim n h0 h' P'"
        by blast
      have "h_account_body f (n + 6) e h = Some h'"
        using Ethereum Some start 2 3 4 t(1) by (simp add: h_account_body_def Let_def then_do_Some)
      moreover have "account_body f e P = Some P'"
        using Ethereum Some push t(2) by (simp add: account_body_def Let_def)
      ultimately show ?thesis using t(3) by blast
    qed
  next
    case Bitcoin
    let ?bal = "toString_integer (decimalPlaces 0 (totalSats
                  (case addresses (chainSpecific ?a) of None \<Rightarrow> [] | Some a \<Rightarrow> a)))"
    let ?P3 = "balances_byId_set ?x ?bal ?P2"
    let ?P4 = "balances_ids_push ?x ?P3"
    from sim_balances_byId_set [OF s2, of ?x ?bal] obtain g3 where
      3: "h_balances_byId_set ?x ?bal (n + 6) g2 = Some g3" and s3: "Sim n h0 g3 ?P3" by blast
    from sim_balances_ids_push [OF s3, of ?x] obtain g4 where
      4: "h_balances_ids_push ?x (n + 6) g3 = Some g4" and s4: "Sim n h0 g4 ?P4" by blast
    have "h_account_body f (n + 6) e h = Some g4"
      using Bitcoin start 2 3 4 by (simp add: h_account_body_def Let_def then_do_Some)
    moreover have "account_body f e P = Some ?P4"
      using Bitcoin push by (simp add: account_body_def Let_def)
    ultimately show ?thesis using s4 by blast
  next
    case (OtherChain s)
    have "h_account_body f (n + 6) e h = Some g1"
      using OtherChain start by (simp add: h_account_body_def Let_def)
    moreover have "account_body f e P = Some ?P1"
      using OtherChain by (simp add: account_body_def Let_def)
    ultimately show ?thesis using s1 by blast
  qed
qed

lemma sim_cloneDeep:
  assumes c: "heap_closed h" and r: "read_portfolio h init = Some initialState"
  shows "\<exists>h1. h_cloneDeep init h = Some (h1, next_free h + 6) \<and>
              Sim (next_free h) h h1 initialState"
proof -
  define n where "n = next_free h"
  define h1 where "h1 = fst (alloc_portfolio initialState h)"
  have a: "alloc_portfolio initialState h = (h1, n + 6)"
    by (simp add: h1_def n_def alloc_portfolio_def Let_def initialState_def)
  have cell: "cells h1 b =
      (if b = n + 6 then Some (RefObj [(''accounts'', n + 2), (''balances'', n + 5)])
       else if b = n + 5 then Some (RefObj [(''byId'', n + 3), (''ids'', n + 4)])
       else if b = n + 4 then Some (Arr [])
       else if b = n + 3 then Some (StrObj [])
       else if b = n + 2 then Some (RefObj [(''byId'', n), (''ids'', Suc n)])
       else if b = Suc n then Some (Arr [])
       else if b = n then Some (RefObj [])
       else cells h b)" for b
    by (simp add: h1_def n_def alloc_portfolio_def Let_def initialState_def h_write_def)
  have nf: "next_free h1 = n + 7"
    by (simp add: h1_def n_def alloc_portfolio_def Let_def initialState_def h_write_def)
  have P0: "byId (accounts initialState) = []" "ids (accounts initialState) = []"
    "byId (balances initialState) = []" "ids (balances initialState) = []"
    by (simp_all add: initialState_def)
  have l: "layout n h1"
    by (simp add: layout_def cell nf)
  have cl: "heap_closed h1"
    using c by (auto simp: heap_closed_def cell nf n_def split: if_splits)
  have e: "entry_cells n h1 [] (byId (accounts initialState))"
    by (simp add: entry_cells_def P0)
  have "Inv n h1 initialState []"
    unfolding Inv_def using l cl e by (simp add: cell P0)
  moreover have "frame n h h1"
    by (simp add: frame_def cell nf n_def)
  moreover have "h_cloneDeep init h = Some (h1, n + 6)"
    by (simp add: h_cloneDeep_def r a)
  ultimately show ?thesis
    unfolding n_def by (auto simp: Sim_def)
qed

lemma Sim_closed: "Sim n h0 h P \<Longrightarrow> heap_closed h"
  by (auto simp: Sim_def Inv_def)

lemma Sim_read: "Sim n h0 h P \<Longrightarrow> read_portfolio h (n + 6) = Some P"
  by (auto simp: Sim_def dest: Inv_read)

lemma Sim_next: "Sim n h0 h P \<Longrightarrow> n + 7 \<le> next_free h"
  by (auto simp: Sim_def Inv_def layout_def)

lemma h_accountsToPortfolio_sim:
  assumes c: "heap_closed h" and r: "read_portfolio h init = Some initialState"
  shows "\<exists>h' P. h_accountsToPortfolio f args init h = Some (h', next_free h + 6) \<and>
               accountsToPortfolio f args = Some P \<and>
               read_portfolio h' (next_free h + 6) = Some P \<and>
               frame (next_free h) h h' \<and> heap_closed h' \<and> next_free h + 7 \<le> next_free h'"
proof -
  let ?n = "next_free h"
  from sim_cloneDeep [OF c r] obtain h1 where
    cl: "h_cloneDeep init h = Some (h1, ?n + 6)" and s1: "Sim ?n h h1 initialState" by blast
  have step: "\<exists>h' P'. h_account_body f (?n + 6) x g = Some h' \<and> account_body f x P = Some P' \<and>
                 Sim ?n h h' P' \<and> True" if "Sim ?n h g P" "True" for x g P
    using sim_account_body [OF that(1), of f x] by simp
  from forEach_sim [where fh = "h_account_body f (?n + 6)" and fp = "account_body f"
      and Q = "\<lambda>P. True" and xs = args, OF step s1]
  obtain h' P' where
    run: "forEach (h_account_body f (?n + 6)) args h1 = Some h'"
      "forEach (account_body f) args initialState = Some P'" and s: "Sim ?n h h' P'"
    by blast
  have "h_accountsToPortfolio f args init h = Some (h', ?n + 6)"
    by (simp add: h_accountsToPortfolio_def cl run(1))
  moreover have "accountsToPortfolio f args = Some P'"
    by (simp add: accountsToPortfolio_def cloneDeep_def run(2))
  moreover have "frame ?n h h'"
    using s by (simp add: Sim_def)
  ultimately show ?thesis
    using Sim_read [OF s] Sim_closed [OF s] Sim_next [OF s] by blast
qed

lemma cells_frame:
  "heap_closed h \<Longrightarrow> frame (next_free h) h h' \<Longrightarrow> cells h a = Some c \<Longrightarrow> cells h' a = Some c"
  by (auto simp: heap_closed_def frame_def)

lemma get_field_frame:
  assumes "heap_closed h" and "frame (next_free h) h h'" and "get_field h a nm = Some b"
  shows "get_field h' a nm = Some b"
proof -
  from assms(3) obtain fs where "cells h a = Some (RefObj fs)" and m: "map_of fs nm = Some b"
    by (auto simp: get_field_def split: option.splits cell.splits)
  from cells_frame [OF assms(1,2) this(1)] m show ?thesis
    by (simp add: get_field_def)
qed

lemma get_path_frame:
  assumes "heap_closed h" and "frame (next_free h) h h'" and "get_path h r f1 f2 = Some b"
  shows "get_path h' r f1 f2 = Some b"
proof -
  from assms(3) obtain a where 1: "get_field h r f1 = Some a" and 2: "get_field h a f2 = Some b"
    by (auto simp: get_path_def split: option.splits)
  from get_field_frame [OF assms(1,2) 1] get_field_frame [OF assms(1,2) 2] show ?thesis
    by (simp add: get_path_def)
qed

lemma read_Arr_frame:
  assumes "heap_closed h" and "frame (next_free h) h h'" and "read_Arr h a = Some xs"
  shows "read_Arr h' a = Some xs"
proof -
  from assms(3) have "cells h a = Some (Arr xs)"
    by (auto simp: read_Arr_def split: option.splits cell.splits)
  from cells_frame [OF assms(1,2) this] show ?thesis
    by (simp add: read_Arr_def)
qed

lemma read_StrObj_frame:
  assumes "heap_closed h" and "frame (next_free h) h h'" and "read_StrObj h a = Some xs"
  shows "read_StrObj h' a = Some xs"
proof -
  from assms(3) have "cells h a = Some (StrObj xs)"
    by (auto simp: read_StrObj_def split: option.splits cell.splits)
  from cells_frame [OF assms(1,2) this] show ?thesis
    by (simp add: read_StrObj_def)
qed

lemma read_RefObj_frame:
  assumes "heap_closed h" and "frame (next_free h) h h'" and "read_RefObj h a = Some xs"
  shows "read_RefObj h' a = Some xs"
proof -
  from assms(3) have "cells h a = Some (RefObj xs)"
    by (auto simp: read_RefObj_def split: option.splits cell.splits)
  from cells_frame [OF assms(1,2) this] show ?thesis
    by (simp add: read_RefObj_def)
qed

lemma read_entries_frame:
  assumes "heap_closed h" and "frame (next_free h) h h'"
  shows "read_entries h es = Some ps \<Longrightarrow> read_entries h' es = Some ps"
proof (induction es arbitrary: ps)
  case Nil
  then show ?case by simp
next
  case (Cons e es)
  from Cons.prems obtain xs r where
    1: "read_Arr h (snd e) = Some xs" and 2: "read_entries h es = Some r"
    and 3: "ps = (fst e, xs) # r"
    by (auto split: option.splits)
  from read_Arr_frame [OF assms 1] Cons.IH [OF 2] 3 show ?case by simp
qed

lemma read_portfolio_frame:
  assumes c: "heap_closed h" and f: "frame (next_free h) h h'" and r: "read_portfolio h r = Some P"
  shows "read_portfolio h' r = Some P"
proof -
  from r obtain abi aid bbi bid where
    p: "get_path h r ''accounts'' ''byId'' = Some abi" "get_path h r ''accounts'' ''ids'' = Some aid"
       "get_path h r ''balances'' ''byId'' = Some bbi" "get_path h r ''balances'' ''ids'' = Some bid"
    by (auto simp: read_portfolio_def split: option.splits)
  from r p obtain es aids bs bids where
    q: "read_RefObj h abi = Some es" "read_Arr h aid = Some aids"
       "read_StrObj h bbi = Some bs" "read_Arr h bid = Some bids"
    by (auto simp: read_portfolio_def split: option.splits)
  from r p q obtain entries where
    e: "read_entries h es = Some entries"
    and P: "P = \<lparr>accounts = \<lparr>byId = entries, ids = aids\<rparr>, balances = \<lparr>byId = bs, ids = bids\<rparr>\<rparr>"
    by (auto simp: read_portfolio_def split: option.splits)
  show ?thesis
    by (simp add: read_portfolio_def
        get_path_frame [OF c f p(1)] get_path_frame [OF c f p(2)]
        get_path_frame [OF c f p(3)] get_path_frame [OF c f p(4)]
        read_RefObj_frame [OF c f q(1)] read_Arr_frame [OF c f q(2)]
        read_StrObj_frame [OF c f q(3)] read_Arr_frame [OF c f q(4)]
        read_entries_frame [OF c f e] P)
qed

lemma closed_module_heap: "heap_closed (fst module_heap)"
  by (auto simp: module_heap_def alloc_portfolio_def Let_def initialState_def h_write_def
      empty_heap_def heap_closed_def split: if_splits)

text \<open>
  C10. On any heap that holds \<open>initialState\<close>, a call of \<open>accountsToPortfolio\<close> returns a
  reference to a Portfolio equal to the one the function computes as a value, and leaves
  every cell that existed before the call as it was, \<open>initialState\<close> among them: it
  writes to cells of its own copy only. The input is a value, which the source only reads.
  A second call on the same input, run on the heap the first one left, returns a different
  reference to a structurally equal Portfolio, and the first result is still intact.
\<close>

theorem accountsToPortfolio_twice_on_heap:
  assumes c: "heap_closed h" and r: "read_portfolio h init = Some initialState"
  shows "\<exists>h1 r1 h2 r2 P.
           h_accountsToPortfolio f args init h = Some (h1, r1) \<and>
           h_accountsToPortfolio f args init h1 = Some (h2, r2) \<and>
           accountsToPortfolio f args = Some P \<and>
           read_portfolio h1 r1 = Some P \<and>
           read_portfolio h2 r1 = Some P \<and>
           read_portfolio h2 r2 = Some P \<and>
           r1 \<noteq> r2 \<and>
           frame (next_free h) h h1 \<and> frame (next_free h) h h2 \<and>
           read_portfolio h1 init = Some initialState \<and>
           read_portfolio h2 init = Some initialState"
proof -
  from h_accountsToPortfolio_sim [OF c r, of f args] obtain h1 P where
    1: "h_accountsToPortfolio f args init h = Some (h1, next_free h + 6)"
    and p: "accountsToPortfolio f args = Some P"
    and r1: "read_portfolio h1 (next_free h + 6) = Some P"
    and f1: "frame (next_free h) h h1" and c1: "heap_closed h1"
    and n1: "next_free h + 7 \<le> next_free h1"
    by blast
  have i1: "read_portfolio h1 init = Some initialState"
    using c f1 r by (rule read_portfolio_frame)
  from h_accountsToPortfolio_sim [OF c1 i1, of f args] p obtain h2 where
    2: "h_accountsToPortfolio f args init h1 = Some (h2, next_free h1 + 6)"
    and r2: "read_portfolio h2 (next_free h1 + 6) = Some P"
    and f2: "frame (next_free h1) h1 h2"
    by auto
  have r12: "read_portfolio h2 (next_free h + 6) = Some P"
    using c1 f2 r1 by (rule read_portfolio_frame)
  have i2: "read_portfolio h2 init = Some initialState"
    using c1 f2 i1 by (rule read_portfolio_frame)
  have f02: "frame (next_free h) h h2"
    using f1 f2 n1 by (auto simp: frame_def)
  have ne: "next_free h + 6 \<noteq> next_free h1 + 6"
    using n1 by simp
  from 1 2 p r1 r12 r2 ne f1 f02 i1 i2 show ?thesis by blast
qed

text \<open>Two calls on the heap of the freshly loaded module.\<close>

theorem accountsToPortfolio_twice_on_heap_witness:
  "\<exists>h1 r1 h2 r2 P.
     h_accountsToPortfolio sample_toCAIP19 ex_args (snd module_heap) (fst module_heap) = Some (h1, r1) \<and>
     h_accountsToPortfolio sample_toCAIP19 ex_args (snd module_heap) h1 = Some (h2, r2) \<and>
     accountsToPortfolio sample_toCAIP19 ex_args = Some P \<and>
     read_portfolio h2 r1 = Some P \<and> read_portfolio h2 r2 = Some P \<and> r1 \<noteq> r2 \<and>
     read_portfolio h2 (snd module_heap) = Some initialState"
  using accountsToPortfolio_twice_on_heap [OF closed_module_heap ev_module,
      of sample_toCAIP19 ex_args]
  by blast

end
